theory Spec2Isabelle
  imports Main "HOL-Library.Sublist"
begin

section \<open>Data model (shared/ast-types.ts, tokenizer.ts)\<close>

text \<open>
  Source strings are modelled as \<^typ>\<open>string\<close>: a list of 8-bit characters, that is the
  code units of a Latin-1 source text. Numbers that the code only counts with (line, column,
  offset, cursor) are natural numbers; the numbers of the nodes, which \<open>parseInt\<close> reads,
  are double-precision values of the type \<open>number\<close> below.
\<close>

record SourcePosition =
  line :: nat
  column :: nat
  offset :: nat

record ParseError =
  err_message :: string
  err_position :: SourcePosition
  err_severity :: string
  err_code :: string

record ParseWarning =
  warn_message :: string
  warn_position :: SourcePosition
  warn_suggestion :: "string option"

datatype TokenType =
  COMMAND_START | COMMAND_CODE | PARAMETER | STRING_CONTENT | COMMENT | NEWLINE | EOF

record Token =
  tok_type :: TokenType
  tok_value :: string
  tok_position :: SourcePosition
  tok_raw :: string

section \<open>Tokenizer (class ZplTokenizer)\<close>

text \<open>The mutable fields of the tokenizer object; the source text is passed alongside.\<close>

record ZplTokenizer =
  position :: nat
  tline :: nat
  tcolumn :: nat
  ttokens :: "Token list"
  terrors :: "ParseError list"

text \<open>\<open>/[A-Z0-9@]/\<close>\<close>

definition isCommandChar :: "char \<Rightarrow> bool" where
  "isCommandChar c = (c \<in> set ''ABCDEFGHIJKLMNOPQRSTUVWXYZ0123456789@'')"

text \<open>\<open>/[\s\t\r]/\<close>: the white space and line terminator code units below 256.\<close>

definition isWhitespace :: "char \<Rightarrow> bool" where
  "isWhitespace c =
     (c \<in> {CHR 0x09, CHR 0x0A, CHR 0x0B, CHR 0x0C, CHR 0x0D, CHR 0x20, CHR 0xA0})"

text \<open>\<open>source.substring(position, position + offset)\<close>\<close>

definition peekT :: "string \<Rightarrow> nat \<Rightarrow> ZplTokenizer \<Rightarrow> string" where
  "peekT source n t = take n (drop (position t) source)"

text \<open>\<open>advance(count)\<close>: \<open>count\<close> times \<open>position++; column++\<close>.\<close>

definition advanceT :: "nat \<Rightarrow> ZplTokenizer \<Rightarrow> ZplTokenizer" where
  "advanceT count t = t\<lparr>position := position t + count, tcolumn := tcolumn t + count\<rparr>"

definition getCurrentPosition :: "ZplTokenizer \<Rightarrow> SourcePosition" where
  "getCurrentPosition t = \<lparr>line = tline t, column = tcolumn t, offset = position t\<rparr>"

definition addErrorT :: "string \<Rightarrow> ZplTokenizer \<Rightarrow> ZplTokenizer" where
  "addErrorT msg t =
     t\<lparr>terrors := terrors t @
        [\<lparr>err_message = msg, err_position = getCurrentPosition t,
          err_severity = ''ERROR'', err_code = ''TOKENIZER_ERROR''\<rparr>]\<rparr>"

definition pushToken :: "Token \<Rightarrow> ZplTokenizer \<Rightarrow> ZplTokenizer" where
  "pushToken tok t = t\<lparr>ttokens := ttokens t @ [tok]\<rparr>"

text \<open>The inner loop of \<open>tokenizeParameters\<close> that collects one parameter.\<close>

function tokenizeParameter_loop :: "string \<Rightarrow> string \<Rightarrow> ZplTokenizer \<Rightarrow> string \<times> ZplTokenizer" where
  "tokenizeParameter_loop source parameter t =
     (if position t < length source then
        (if source ! position t = CHR '','' \<or> source ! position t = CHR ''^''
            \<or> source ! position t = CHR 0x0A \<or> isWhitespace (source ! position t)
         then (parameter, t)
         else tokenizeParameter_loop source (parameter @ [source ! position t]) (advanceT 1 t))
      else (parameter, t))"
  by pat_completeness auto
termination
  by (relation "measure (\<lambda>(source, parameter, t). length source - position t)")
     (auto simp: advanceT_def)

declare tokenizeParameter_loop.simps [simp del]

lemma tokenizeParameter_loop_position:
  "position t \<le> position (snd (tokenizeParameter_loop source parameter t))"
proof (induction source parameter t rule: tokenizeParameter_loop.induct)
  case (1 source parameter t)
  show ?case
  proof (cases "position t < length source \<and> \<not> (source ! position t = CHR '','' \<or> source ! position t = CHR ''^''
            \<or> source ! position t = CHR 0x0A \<or> isWhitespace (source ! position t))")
    case True
    then have "position (advanceT 1 t) \<le> position (snd (tokenizeParameter_loop source parameter t))"
      using "1.IH" by (subst tokenizeParameter_loop.simps) simp
    then show ?thesis by (simp add: advanceT_def)
  next
    case False
    then show ?thesis by (subst tokenizeParameter_loop.simps) auto
  qed
qed

lemma tokenizeParameter_loop_progress:
  assumes "position t < length source"
    and "\<not> (source ! position t = CHR '','' \<or> source ! position t = CHR ''^''
            \<or> source ! position t = CHR 0x0A \<or> isWhitespace (source ! position t))"
  shows "position t < position (snd (tokenizeParameter_loop source parameter t))"
proof -
  have "position (advanceT 1 t)
          \<le> position (snd (tokenizeParameter_loop source (parameter @ [source ! position t]) (advanceT 1 t)))"
    by (rule tokenizeParameter_loop_position)
  then show ?thesis using assms
    by (subst tokenizeParameter_loop.simps) (simp add: advanceT_def)
qed

text \<open>\<open>tokenizeParameters\<close>: the outer loop.\<close>

function tokenizeParameters :: "string \<Rightarrow> ZplTokenizer \<Rightarrow> ZplTokenizer" where
  "tokenizeParameters source t =
     (if position t < length source then
        (if source ! position t = CHR ''^'' \<or> source ! position t = CHR 0x0A then t
         else if source ! position t = CHR '','' then tokenizeParameters source (advanceT 1 t)
         else if \<not> isWhitespace (source ! position t) then
           tokenizeParameters source
             (if fst (tokenizeParameter_loop source [] t) \<noteq> [] then
                pushToken
                  \<lparr>tok_type = PARAMETER, tok_value = fst (tokenizeParameter_loop source [] t),
                    tok_position = getCurrentPosition t,
                    tok_raw = fst (tokenizeParameter_loop source [] t)\<rparr>
                  (snd (tokenizeParameter_loop source [] t))
              else snd (tokenizeParameter_loop source [] t))
         else tokenizeParameters source (advanceT 1 t))
      else t)"
  by pat_completeness auto
termination
proof (relation "measure (\<lambda>(source, t). length source - position t)", goal_cases)
  case 1
  show ?case by simp
next
  case (2 source t)
  then show ?case by (simp add: advanceT_def)
next
  case (3 source t)
  then have "position t < position (snd (tokenizeParameter_loop source [] t))"
    by (intro tokenizeParameter_loop_progress) auto
  with 3 show ?case by (auto simp: pushToken_def)
next
  case (4 source t)
  then show ?case by (simp add: advanceT_def)
qed

declare tokenizeParameters.simps [simp del]

lemma tokenizeParameters_position:
  "position t \<le> position (tokenizeParameters source t)"
proof (induction source t rule: tokenizeParameters.induct)
  case (1 source t)
  let ?c = "source ! position t"
  let ?r = "tokenizeParameter_loop source [] t"
  consider (stop) "\<not> position t < length source \<or> ?c = CHR ''^'' \<or> ?c = CHR 0x0A"
    | (comma) "position t < length source" "\<not> (?c = CHR ''^'' \<or> ?c = CHR 0x0A)" "?c = CHR '',''"
    | (param) "position t < length source" "\<not> (?c = CHR ''^'' \<or> ?c = CHR 0x0A)" "?c \<noteq> CHR '',''"
        "\<not> isWhitespace ?c"
    | (space) "position t < length source" "\<not> (?c = CHR ''^'' \<or> ?c = CHR 0x0A)" "?c \<noteq> CHR '',''"
        "isWhitespace ?c"
    by blast
  then show ?case
  proof cases
    case stop
    then show ?thesis by (subst tokenizeParameters.simps) auto
  next
    case comma
    then have "position (advanceT 1 t) \<le> position (tokenizeParameters source t)"
      using "1.IH"(1) by (subst tokenizeParameters.simps) simp
    then show ?thesis by (simp add: advanceT_def)
  next
    case param
    have "position t \<le> position (snd ?r)" by (rule tokenizeParameter_loop_position)
    moreover have "position (if fst ?r \<noteq> [] then
                pushToken
                  \<lparr>tok_type = PARAMETER, tok_value = fst ?r,
                    tok_position = getCurrentPosition t, tok_raw = fst ?r\<rparr> (snd ?r)
              else snd ?r) \<le> position (tokenizeParameters source t)"
      using param "1.IH"(2) by (subst tokenizeParameters.simps [of source t]) simp
    ultimately show ?thesis by (simp add: pushToken_def split: if_splits)
  next
    case space
    then have "position (advanceT 1 t) \<le> position (tokenizeParameters source t)"
      using "1.IH"(3) by (subst tokenizeParameters.simps) simp
    then show ?thesis by (simp add: advanceT_def)
  qed
qed

text \<open>The loop of \<open>tokenizeCommand\<close> that collects the command code.\<close>

function tokenizeCommand_loop :: "string \<Rightarrow> string \<Rightarrow> ZplTokenizer \<Rightarrow> string \<times> ZplTokenizer" where
  "tokenizeCommand_loop source commandCode t =
     (if position t < length source then
        (if isCommandChar (source ! position t)
         then tokenizeCommand_loop source (commandCode @ [source ! position t]) (advanceT 1 t)
         else (commandCode, t))
      else (commandCode, t))"
  by pat_completeness auto
termination
  by (relation "measure (\<lambda>(source, commandCode, t). length source - position t)")
     (auto simp: advanceT_def)

declare tokenizeCommand_loop.simps [simp del]

lemma tokenizeCommand_loop_position:
  "position t \<le> position (snd (tokenizeCommand_loop source commandCode t))"
proof (induction source commandCode t rule: tokenizeCommand_loop.induct)
  case (1 source commandCode t)
  show ?case
  proof (cases "position t < length source \<and> isCommandChar (source ! position t)")
    case True
    then have "position (advanceT 1 t) \<le> position (snd (tokenizeCommand_loop source commandCode t))"
      using "1.IH" by (subst tokenizeCommand_loop.simps) simp
    then show ?thesis by (simp add: advanceT_def)
  next
    case False
    then show ?thesis by (subst tokenizeCommand_loop.simps) auto
  qed
qed

definition tokenizeCommand :: "string \<Rightarrow> ZplTokenizer \<Rightarrow> ZplTokenizer" where
  "tokenizeCommand source t =
     (let startPos = getCurrentPosition t;
          r = tokenizeCommand_loop source [] (advanceT 1 t);
          commandCode = fst r;
          t1 = snd r
      in if commandCode \<noteq> [] then
           tokenizeParameters source
             (pushToken
                \<lparr>tok_type = COMMAND_CODE, tok_value = commandCode,
                  tok_position = startPos\<lparr>column := column startPos + 1\<rparr>,
                  tok_raw = commandCode\<rparr>
                (pushToken
                   \<lparr>tok_type = COMMAND_START, tok_value = ''^'', tok_position = startPos,
                     tok_raw = ''^''\<rparr>
                   t1))
         else addErrorT ''Empty command after ^'' t1)"

definition tokenizeNewline :: "ZplTokenizer \<Rightarrow> ZplTokenizer" where
  "tokenizeNewline t =
     (pushToken
        \<lparr>tok_type = NEWLINE, tok_value = [CHR 0x0A], tok_position = getCurrentPosition t,
          tok_raw = [CHR 0x0A]\<rparr> t)
     \<lparr>tline := tline t + 1, tcolumn := 1, position := position t + 1\<rparr>"

function tokenizeLineComment_loop :: "string \<Rightarrow> string \<Rightarrow> ZplTokenizer \<Rightarrow> string \<times> ZplTokenizer" where
  "tokenizeLineComment_loop source comment t =
     (if position t < length source \<and> source ! position t \<noteq> CHR 0x0A
      then tokenizeLineComment_loop source (comment @ [source ! position t]) (advanceT 1 t)
      else (comment, t))"
  by pat_completeness auto
termination
  by (relation "measure (\<lambda>(source, comment, t). length source - position t)")
     (auto simp: advanceT_def)

declare tokenizeLineComment_loop.simps [simp del]

lemma tokenizeLineComment_loop_position:
  "position t \<le> position (snd (tokenizeLineComment_loop source comment t))"
proof (induction source comment t rule: tokenizeLineComment_loop.induct)
  case (1 source comment t)
  show ?case
  proof (cases "position t < length source \<and> source ! position t \<noteq> CHR 0x0A")
    case True
    then have "position (advanceT 1 t) \<le> position (snd (tokenizeLineComment_loop source comment t))"
      using "1.IH" by (subst tokenizeLineComment_loop.simps) simp
    then show ?thesis by (simp add: advanceT_def)
  next
    case False
    then show ?thesis by (subst tokenizeLineComment_loop.simps) auto
  qed
qed

definition tokenizeLineComment :: "string \<Rightarrow> ZplTokenizer \<Rightarrow> ZplTokenizer" where
  "tokenizeLineComment source t =
     (let startPos = getCurrentPosition t;
          r = tokenizeLineComment_loop source ''//'' (advanceT 2 t)
      in pushToken
           \<lparr>tok_type = COMMENT, tok_value = fst r, tok_position = startPos, tok_raw = fst r\<rparr>
           (snd r))"

function tokenizeBlockComment_loop :: "string \<Rightarrow> string \<Rightarrow> ZplTokenizer \<Rightarrow> string \<times> ZplTokenizer" where
  "tokenizeBlockComment_loop source comment t =
     (if position t < length source - 1 then
        (if source ! position t = CHR ''*'' \<and> source ! (position t + 1) = CHR ''/''
         then (comment @ ''*/'', advanceT 2 t)
         else tokenizeBlockComment_loop source (comment @ [source ! position t]) (advanceT 1 t))
      else (comment, t))"
  by pat_completeness auto
termination
  by (relation "measure (\<lambda>(source, comment, t). length source - position t)")
     (auto simp: advanceT_def)

declare tokenizeBlockComment_loop.simps [simp del]

lemma tokenizeBlockComment_loop_position:
  "position t \<le> position (snd (tokenizeBlockComment_loop source comment t))"
proof (induction source comment t rule: tokenizeBlockComment_loop.induct)
  case (1 source comment t)
  show ?case
  proof (cases "position t < length source - 1 \<and>
      \<not> (source ! position t = CHR ''*'' \<and> source ! (position t + 1) = CHR ''/'')")
    case True
    then have "position (advanceT 1 t) \<le> position (snd (tokenizeBlockComment_loop source comment t))"
      using "1.IH" by (subst tokenizeBlockComment_loop.simps) (simp add: advanceT_def)
    then show ?thesis by (simp add: advanceT_def)
  next
    case False
    then show ?thesis by (subst tokenizeBlockComment_loop.simps) (auto simp: advanceT_def)
  qed
qed

definition tokenizeBlockComment :: "string \<Rightarrow> ZplTokenizer \<Rightarrow> ZplTokenizer" where
  "tokenizeBlockComment source t =
     (let startPos = getCurrentPosition t;
          r = tokenizeBlockComment_loop source ''/*'' (advanceT 2 t)
      in pushToken
           \<lparr>tok_type = COMMENT, tok_value = fst r, tok_position = startPos, tok_raw = fst r\<rparr>
           (snd r))"

text \<open>One iteration of the \<open>while\<close> loop of \<open>tokenize\<close>, for \<open>position < source.length\<close>.\<close>

definition tokenize_step :: "string \<Rightarrow> ZplTokenizer \<Rightarrow> ZplTokenizer" where
  "tokenize_step source t =
     (let char = source ! position t in
      if char = CHR ''^'' then tokenizeCommand source t
      else if char = CHR 0x0A then tokenizeNewline t
      else if char = CHR ''/'' \<and> peekT source 1 t = ''/'' then tokenizeLineComment source t
      else if char = CHR ''/'' \<and> peekT source 1 t = ''*'' then tokenizeBlockComment source t
      else if isWhitespace char then advanceT 1 t
      else advanceT 1 (addErrorT (''Unexpected character: '' @ [char]) t))"

lemma tokenizeCommand_progress: "position t < position (tokenizeCommand source t)"
proof -
  let ?r = "tokenizeCommand_loop source [] (advanceT 1 t)"
  have a: "position (advanceT 1 t) \<le> position (snd ?r)"
    by (rule tokenizeCommand_loop_position)
  have b: "position u \<le> position (tokenizeParameters source u)" for u
    by (rule tokenizeParameters_position)
  show ?thesis
  proof (cases "fst ?r \<noteq> []")
    case True
    have "position (snd ?r) \<le> position (tokenizeCommand source t)"
      using True b [of "pushToken
                \<lparr>tok_type = COMMAND_CODE, tok_value = fst ?r,
                  tok_position = (getCurrentPosition t)\<lparr>column := column (getCurrentPosition t) + 1\<rparr>,
                  tok_raw = fst ?r\<rparr>
                (pushToken
                   \<lparr>tok_type = COMMAND_START, tok_value = ''^'', tok_position = getCurrentPosition t,
                     tok_raw = ''^''\<rparr>
                   (snd ?r))"]
      by (simp add: tokenizeCommand_def Let_def pushToken_def)
    with a show ?thesis by (simp add: advanceT_def)
  next
    case False
    then show ?thesis using a by (simp add: tokenizeCommand_def Let_def addErrorT_def advanceT_def)
  qed
qed

lemma tokenize_step_progress: "position t < position (tokenize_step source t)"
proof -
  have "position (advanceT 2 t) \<le> position (snd (tokenizeLineComment_loop source ''//'' (advanceT 2 t)))"
    by (rule tokenizeLineComment_loop_position)
  moreover have "position (advanceT 2 t) \<le> position (snd (tokenizeBlockComment_loop source ''/*'' (advanceT 2 t)))"
    by (rule tokenizeBlockComment_loop_position)
  moreover note tokenizeCommand_progress [of t source]
  ultimately show ?thesis
    by (simp add: tokenize_step_def Let_def tokenizeNewline_def tokenizeLineComment_def
        tokenizeBlockComment_def pushToken_def advanceT_def addErrorT_def)
qed

function tokenize_loop :: "string \<Rightarrow> ZplTokenizer \<Rightarrow> ZplTokenizer" where
  "tokenize_loop source t =
     (if position t < length source then tokenize_loop source (tokenize_step source t) else t)"
  by pat_completeness auto
termination
proof (relation "measure (\<lambda>(source, t). length source - position t)", goal_cases)
  case 1
  show ?case by simp
next
  case (2 source t)
  then show ?case using tokenize_step_progress [of t source] by simp
qed

declare tokenize_loop.simps [simp del]

text \<open>
  \<open>tokenize()\<close>: the fields are reset, the source is scanned, and the end-of-stream token is
  pushed at the final position. The result is the pair \<open>{tokens, errors}\<close>.
\<close>

definition tokenize_init :: ZplTokenizer where
  "tokenize_init = \<lparr>position = 0, tline = 1, tcolumn = 1, ttokens = [], terrors = []\<rparr>"

definition tokenize :: "string \<Rightarrow> Token list \<times> ParseError list" where
  "tokenize source =
     (let t = tokenize_loop source tokenize_init
      in (ttokens t @
            [\<lparr>tok_type = EOF, tok_value = ''EOF'', tok_position = getCurrentPosition t,
              tok_raw = ''''\<rparr>],
          terrors t))"

section \<open>Command nodes and documents (shared/ast-types.ts)\<close>

text \<open>
  The \<open>parameters\<close> field is declared as a record of named values, but most rules store the
  array of parameter values there; only \<open>parseLabelEnd\<close> and \<open>parseFieldData\<close> store an object.
\<close>

datatype Parameters = ParamArray "string list" | ParamObject "(string \<times> string) list"

text \<open>The base interface \<open>ZplCommand\<close>.\<close>

record ZplCommand =
  cmd_type :: string
  cmd_command :: string
  cmd_raw :: string
  cmd_position :: SourcePosition
  cmd_parameters :: Parameters

subsection \<open>Number values\<close>

text \<open>
  The double-precision values that this program computes with: \<open>parseInt\<close> returns \<open>NaN\<close>,
  a double whose value is an integer, the negative zero or an infinity, and the maximum and
  the sum of such values are of this kind again. \<open>Finite n\<close> is the double whose value is
  the integer \<open>n\<close>; \<open>Finite 0\<close> is the positive zero.
\<close>

datatype number = NaN | Finite int | NegZero | PosInfinity | NegInfinity

function bit_length :: "int \<Rightarrow> nat" where
  "bit_length n = (if n \<le> 0 then 0 else Suc (bit_length (n div 2)))"
  by pat_completeness auto
termination
  by (relation "measure nat") auto

declare bit_length.simps [simp del]

text \<open>
  The double nearest to a natural number \<open>m\<close>, ties to the even significand (53 bits);
  from \<open>2^1024\<close> on the result is the infinity.
\<close>

definition roundInt :: "int \<Rightarrow> number" where
  "roundInt m =
     (if m < 9007199254740992 then Finite m
      else
        (let e = bit_length m - 53;
             q = m div 2 ^ e;
             r = m mod 2 ^ e;
             h = 2 ^ (e - 1);
             q' = (if h < r \<or> (r = h \<and> odd q) then q + 1 else q);
             v = q' * 2 ^ e
         in if 2 ^ 1024 \<le> v then PosInfinity else Finite v))"

fun negate :: "number \<Rightarrow> number" where
  "negate NaN = NaN"
| "negate (Finite n) = (if n = 0 then NegZero else Finite (- n))"
| "negate NegZero = Finite 0"
| "negate PosInfinity = NegInfinity"
| "negate NegInfinity = PosInfinity"

text \<open>The double nearest to an integer.\<close>

definition toNumber :: "int \<Rightarrow> number" where
  "toNumber n = (if 0 \<le> n then roundInt n else negate (roundInt (- n)))"

definition isNaN :: "number \<Rightarrow> bool" where
  "isNaN x \<longleftrightarrow> x = NaN"

text \<open>
  The order of \<open>Math.max\<close> on the values other than \<open>NaN\<close>: a class, and a rank within the
  finite values, where the negative zero lies below the positive zero.
\<close>

fun number_key :: "number \<Rightarrow> int \<times> int" where
  "number_key NegInfinity = (0, 0)"
| "number_key (Finite n) = (1, 2 * n)"
| "number_key NegZero = (1, - 1)"
| "number_key PosInfinity = (2, 0)"
| "number_key NaN = (3, 0)"

definition number_less :: "number \<Rightarrow> number \<Rightarrow> bool" where
  "number_less a b \<longleftrightarrow>
     fst (number_key a) < fst (number_key b)
     \<or> (fst (number_key a) = fst (number_key b) \<and> snd (number_key a) < snd (number_key b))"

text \<open>\<open>Math.max\<close> of a list of numbers: \<open>-Infinity\<close> for no number, \<open>NaN\<close> if one is \<open>NaN\<close>.\<close>

definition max_number :: "number \<Rightarrow> number \<Rightarrow> number" where
  "max_number a b =
     (if isNaN a \<or> isNaN b then NaN else if number_less a b then b else a)"

definition Math_max :: "number list \<Rightarrow> number" where
  "Math_max xs = foldl max_number NegInfinity xs"

text \<open>\<open>x + k\<close> for an integer constant \<open>k\<close> that is a double: the exact sum, rounded.\<close>

fun plus_constant :: "number \<Rightarrow> int \<Rightarrow> number" where
  "plus_constant NaN k = NaN"
| "plus_constant (Finite n) k = toNumber (n + k)"
| "plus_constant NegZero k = toNumber k"
| "plus_constant PosInfinity k = PosInfinity"
| "plus_constant NegInfinity k = NegInfinity"

subsection \<open>Nodes\<close>

text \<open>
  The union of the node shapes that the parser builds. The kind-specific fields follow the
  base record in the order of their interface: \<open>length\<close>; \<open>x, y\<close>; \<open>width, height, thickness,
  color, rounding\<close>; \<open>content, stopCommand\<close>; \<open>font, orientation, height, width\<close>;
  \<open>orientation, height, printInterpretationLine, printAboveCode, mode, data\<close>.
  \<open>EmptyObject\<close> is the value \<open>{}\<close> that the three stub rules return.
\<close>

datatype AnyZplCommand =
    LabelStartCommand ZplCommand
  | LabelEndCommand ZplCommand
  | LabelLengthCommand ZplCommand number
  | LabelHomeCommand ZplCommand number number
  | FieldOriginCommand ZplCommand number number
  | GraphicBoxCommand ZplCommand number number number string "number option"
  | FieldDataCommand ZplCommand string bool
  | FontSelectionCommand ZplCommand string string number "number option"
  | BarcodeCommand ZplCommand string number bool bool "string option" string
  | GenericCommand ZplCommand
  | EmptyObject

fun base_fields :: "AnyZplCommand \<Rightarrow> ZplCommand option" where
  "base_fields (LabelStartCommand b) = Some b"
| "base_fields (LabelEndCommand b) = Some b"
| "base_fields (LabelLengthCommand b _) = Some b"
| "base_fields (LabelHomeCommand b _ _) = Some b"
| "base_fields (FieldOriginCommand b _ _) = Some b"
| "base_fields (GraphicBoxCommand b _ _ _ _ _) = Some b"
| "base_fields (FieldDataCommand b _ _) = Some b"
| "base_fields (FontSelectionCommand b _ _ _ _) = Some b"
| "base_fields (BarcodeCommand b _ _ _ _ _ _) = Some b"
| "base_fields (GenericCommand b) = Some b"
| "base_fields EmptyObject = None"

text \<open>\<open>cmd.type\<close>, which is \<open>undefined\<close> on \<open>{}\<close>.\<close>

definition node_type :: "AnyZplCommand \<Rightarrow> string option" where
  "node_type cmd = map_option cmd_type (base_fields cmd)"

record Metadata =
  md_source :: string
  md_errors :: "ParseError list"
  md_warnings :: "ParseWarning list"
  labelWidth :: "number option"
  labelLength :: "number option"

record ZplDocument =
  doc_type :: string
  commands :: "AnyZplCommand list"
  metadata :: Metadata

section \<open>Parser (class ZplParser)\<close>

text \<open>
  The mutable fields of the parser object. A method is a function from the object's state
  to a result and the new state. A result is a value or a thrown exception: the
  \<open>ParseError\<close> object that \<open>consume\<close> throws, the \<open>TypeError\<close> of
  reading a property of \<open>undefined\<close> (an index outside the token array yields
  \<open>undefined\<close>), or the \<open>RangeError\<close> of a call with more arguments than the engine
  accepts. The state persists when an exception is thrown.
\<close>

record ZplParser =
  tokens :: "Token list"
  current :: nat
  errors :: "ParseError list"
  warnings :: "ParseWarning list"

datatype exn = Thrown ParseError | TypeError | RangeError

datatype 'a result = Ok 'a | Throw exn

type_synonym 'a parser = "ZplParser \<Rightarrow> 'a result \<times> ZplParser"

definition returnP :: "'a \<Rightarrow> 'a parser" where
  "returnP a p = (Ok a, p)"

definition throwP :: "exn \<Rightarrow> 'a parser" where
  "throwP e p = (Throw e, p)"

definition bindP :: "'a parser \<Rightarrow> ('a \<Rightarrow> 'b parser) \<Rightarrow> 'b parser" where
  "bindP m f p = (case m p of (Ok a, p') \<Rightarrow> f a p' | (Throw e, p') \<Rightarrow> (Throw e, p'))"

text \<open>Reading a property of a value that may be \<open>undefined\<close>.\<close>

definition defined :: "'a option \<Rightarrow> 'a parser" where
  "defined x = (case x of None \<Rightarrow> throwP TypeError | Some a \<Rightarrow> returnP a)"

text \<open>\<open>this.tokens[i]\<close>\<close>

definition token_at :: "ZplParser \<Rightarrow> nat \<Rightarrow> Token option" where
  "token_at p i = (if i < length (tokens p) then Some (tokens p ! i) else None)"

definition peek :: "Token option parser" where
  "peek p = returnP (token_at p (current p)) p"

definition peekNext :: "Token option parser" where
  "peekNext p =
     (if current p + 1 \<ge> length (tokens p) then returnP None p
      else returnP (token_at p (current p + 1)) p)"

text \<open>\<open>this.tokens[this.current - 1]\<close>; the index \<open>-1\<close> yields \<open>undefined\<close>.\<close>

definition previous :: "Token option parser" where
  "previous p = returnP (if current p = 0 then None else token_at p (current p - 1)) p"

definition isAtEnd :: "bool parser" where
  "isAtEnd = bindP peek (\<lambda>t. bindP (defined t) (\<lambda>t. returnP (tok_type t = EOF)))"

definition check :: "TokenType \<Rightarrow> bool parser" where
  "check ty =
     bindP isAtEnd (\<lambda>e.
       if e then returnP False
       else bindP peek (\<lambda>t. bindP (defined t) (\<lambda>t. returnP (tok_type t = ty))))"

definition advance :: "Token option parser" where
  "advance =
     bindP isAtEnd (\<lambda>e.
       bindP (\<lambda>p. returnP () (if \<not> e then p\<lparr>current := current p + 1\<rparr> else p)) (\<lambda>_.
         previous))"

primrec matchP :: "TokenType list \<Rightarrow> bool parser" where
  "matchP [] = returnP False"
| "matchP (ty # types) =
     bindP (check ty) (\<lambda>c.
       if c then bindP advance (\<lambda>_. returnP True) else matchP types)"

definition addError :: "string \<Rightarrow> SourcePosition \<Rightarrow> ParseError parser" where
  "addError msg pos p =
     (let error = \<lparr>err_message = msg, err_position = pos, err_severity = ''ERROR'',
                    err_code = ''PARSER_ERROR''\<rparr>
      in returnP error (p\<lparr>errors := errors p @ [error]\<rparr>))"

definition addWarning :: "string \<Rightarrow> SourcePosition \<Rightarrow> unit parser" where
  "addWarning msg pos p =
     returnP ()
       (p\<lparr>warnings := warnings p @
            [\<lparr>warn_message = msg, warn_position = pos, warn_suggestion = None\<rparr>]\<rparr>)"

definition consume :: "TokenType \<Rightarrow> string \<Rightarrow> Token option parser" where
  "consume ty msg =
     bindP (check ty) (\<lambda>c.
       if c then advance
       else bindP peek (\<lambda>t. bindP (defined t) (\<lambda>t.
              bindP (addError msg (tok_position t)) (\<lambda>error. throwP (Thrown error)))))"

lemma isAtEnd_eq:
  "isAtEnd p =
     (case token_at p (current p) of None \<Rightarrow> (Throw TypeError, p)
      | Some t \<Rightarrow> (Ok (tok_type t = EOF), p))"
  by (simp add: isAtEnd_def peek_def bindP_def returnP_def throwP_def defined_def
      split: option.splits)

lemma check_eq:
  "check ty p =
     (case token_at p (current p) of None \<Rightarrow> (Throw TypeError, p)
      | Some t \<Rightarrow> (Ok (tok_type t \<noteq> EOF \<and> tok_type t = ty), p))"
  by (simp add: check_def isAtEnd_eq peek_def bindP_def returnP_def throwP_def defined_def
      split: option.splits)

lemma advance_eq:
  "advance p =
     (case token_at p (current p) of None \<Rightarrow> (Throw TypeError, p)
      | Some t \<Rightarrow>
          if tok_type t = EOF
          then (Ok (if current p = 0 then None else token_at p (current p - 1)), p)
          else (Ok (Some t), p\<lparr>current := current p + 1\<rparr>))"
  by (simp add: advance_def isAtEnd_eq previous_def bindP_def returnP_def token_at_def
      split: option.splits)

subsection \<open>Reading parameter values\<close>

definition param_at :: "string list \<Rightarrow> nat \<Rightarrow> string option" where
  "param_at parameters i = (if i < length parameters then Some (parameters ! i) else None)"

definition isDigit :: "char \<Rightarrow> bool" where
  "isDigit c = (c \<in> set ''0123456789'')"

definition digitValue :: "char \<Rightarrow> int" where
  "digitValue c = int (of_char c) - 48"

text \<open>
  \<open>parseInt(value, 10)\<close>: leading white space is skipped, one sign is read, and the longest
  run of decimal digits is the mathematical value; no digit gives \<open>NaN\<close>, and so does
  \<open>undefined\<close> (which is read as the text \<open>undefined\<close>). The result is the double nearest
  to the signed value, and the negative zero for a negative sign before the value 0. (For
  more than 20 significant digits the standard lets an engine replace the later digits by
  0 before rounding; the model rounds the exact value.)
\<close>

definition parseInt :: "string option \<Rightarrow> number" where
  "parseInt v =
     (case v of
        None \<Rightarrow> NaN
      | Some s \<Rightarrow>
          (let S = dropWhile isWhitespace s;
               negative = (S \<noteq> [] \<and> hd S = CHR ''-'');
               S' = (if S \<noteq> [] \<and> (hd S = CHR ''+'' \<or> hd S = CHR ''-'') then tl S else S);
               Z = takeWhile isDigit S';
               mathInt = foldl (\<lambda>n c. 10 * n + digitValue c) 0 Z
           in if Z = [] then NaN
              else if negative then negate (roundInt mathInt)
              else roundInt mathInt))"

text \<open>\<open>const num = parseInt(value, 10); return isNaN(num) ? defaultValue : num\<close>\<close>

definition parseNumberParameter :: "string option \<Rightarrow> number \<Rightarrow> number" where
  "parseNumberParameter v defaultValue =
     (let num = parseInt v in if isNaN num then defaultValue else num)"

definition parseBooleanParameter :: "string option \<Rightarrow> bool \<Rightarrow> bool" where
  "parseBooleanParameter v defaultValue =
     (if v = Some ''Y'' then True else if v = Some ''N'' then False else defaultValue)"

definition parseOrientation :: "string option \<Rightarrow> string" where
  "parseOrientation v =
     (case v of
        Some s \<Rightarrow> if s \<in> set [''N'', ''R'', ''I'', ''B''] then s else ''N''
      | None \<Rightarrow> ''N'')"

text \<open>Truthiness of a parameter value: \<open>undefined\<close> and the empty string are falsy.\<close>

definition truthy :: "string option \<Rightarrow> bool" where
  "truthy v = (case v of None \<Rightarrow> False | Some s \<Rightarrow> s \<noteq> [])"

subsection \<open>Grammar rules\<close>

text \<open>\<open>parseParameters\<close>: \<open>while (check(PARAMETER)) parameters.push(advance().value)\<close>.\<close>

function parseParameters_loop :: "string list \<Rightarrow> string list parser" where
  "parseParameters_loop parameters p =
     (case check PARAMETER p of
        (Throw e, p1) \<Rightarrow> (Throw e, p1)
      | (Ok c, p1) \<Rightarrow>
          if c then
            (case advance p1 of
               (Throw e, p2) \<Rightarrow> (Throw e, p2)
             | (Ok paramToken, p2) \<Rightarrow>
                 (case paramToken of
                    None \<Rightarrow> (Throw TypeError, p2)
                  | Some t \<Rightarrow> parseParameters_loop (parameters @ [tok_value t]) p2))
          else (Ok parameters, p1))"
  by pat_completeness auto
termination
  by (relation "measure (\<lambda>(parameters, p). length (tokens p) - current p)")
     (auto simp: check_eq advance_eq token_at_def split: option.splits if_splits)

declare parseParameters_loop.simps [simp del]

definition parseParameters :: "string list parser" where
  "parseParameters = parseParameters_loop []"

definition parseLabelStart :: "Token option \<Rightarrow> Token \<Rightarrow> AnyZplCommand parser" where
  "parseLabelStart startToken commandToken =
     (let raw = ''^'' @ tok_value commandToken in
      bindP (defined startToken) (\<lambda>st.
      bindP parseParameters (\<lambda>parameters.
        returnP (LabelStartCommand
          \<lparr>cmd_type = ''LABEL_START'', cmd_command = ''XA'', cmd_raw = raw,
            cmd_position = tok_position st, cmd_parameters = ParamArray parameters\<rparr>))))"

definition parseLabelEnd :: "Token option \<Rightarrow> Token \<Rightarrow> AnyZplCommand parser" where
  "parseLabelEnd startToken commandToken =
     (let raw = ''^'' @ tok_value commandToken in
      bindP (defined startToken) (\<lambda>st.
        returnP (LabelEndCommand
          \<lparr>cmd_type = ''LABEL_END'', cmd_command = ''XZ'', cmd_raw = raw,
            cmd_position = tok_position st, cmd_parameters = ParamObject []\<rparr>)))"

definition parseLabelLength :: "Token option \<Rightarrow> Token \<Rightarrow> AnyZplCommand parser" where
  "parseLabelLength startToken commandToken =
     (let raw = ''^'' @ tok_value commandToken in
      bindP parseParameters (\<lambda>parameters.
      let length = parseNumberParameter (param_at parameters 0) (Finite 100) in
      bindP (defined startToken) (\<lambda>st.
        returnP (LabelLengthCommand
          \<lparr>cmd_type = ''LABEL_LENGTH'', cmd_command = ''LL'', cmd_raw = raw,
            cmd_position = tok_position st, cmd_parameters = ParamArray parameters\<rparr>
          length))))"

definition parseLabelHome :: "Token option \<Rightarrow> Token \<Rightarrow> AnyZplCommand parser" where
  "parseLabelHome startToken commandToken =
     (let raw = ''^'' @ tok_value commandToken in
      bindP parseParameters (\<lambda>parameters.
      bindP (if length parameters < 2
             then bindP (defined startToken) (\<lambda>st.
                    bindP (addError ''LH command requires x and y parameters'' (tok_position st))
                      (\<lambda>_. returnP ()))
             else returnP ()) (\<lambda>_.
      let x = parseNumberParameter (param_at parameters 0) (Finite 0);
          y = parseNumberParameter (param_at parameters 1) (Finite 0) in
      bindP (defined startToken) (\<lambda>st.
        returnP (LabelHomeCommand
          \<lparr>cmd_type = ''LABEL_HOME'', cmd_command = ''LH'', cmd_raw = raw,
            cmd_position = tok_position st, cmd_parameters = ParamArray parameters\<rparr>
          x y)))))"

definition parseFieldOrigin :: "Token option \<Rightarrow> Token \<Rightarrow> AnyZplCommand parser" where
  "parseFieldOrigin startToken commandToken =
     (let raw = ''^'' @ tok_value commandToken in
      bindP parseParameters (\<lambda>parameters.
      bindP (if length parameters < 2
             then bindP (defined startToken) (\<lambda>st.
                    bindP (addError ''FO command requires x and y parameters'' (tok_position st))
                      (\<lambda>_. returnP ()))
             else returnP ()) (\<lambda>_.
      let x = parseNumberParameter (param_at parameters 0) (Finite 0);
          y = parseNumberParameter (param_at parameters 1) (Finite 0) in
      bindP (defined startToken) (\<lambda>st.
        returnP (FieldOriginCommand
          \<lparr>cmd_type = ''FIELD_ORIGIN'', cmd_command = ''FO'', cmd_raw = raw,
            cmd_position = tok_position st, cmd_parameters = ParamArray parameters\<rparr>
          x y)))))"

text \<open>
  The lookahead shared by \<open>parseFieldData\<close> and \<open>parseBarcode\<close>:
  \<open>check(COMMAND_START) && peekNext()?.type === COMMAND_CODE\<close>, then
  \<open>this.tokens[this.current + 1].value\<close>. The result is the value of the next command code,
  if a command starts at the cursor.
\<close>

definition nextCommandValue :: "string option parser" where
  "nextCommandValue =
     bindP (check COMMAND_START) (\<lambda>c.
       if c then
         bindP peekNext (\<lambda>n.
           if map_option tok_type n = Some COMMAND_CODE then
             bindP (\<lambda>p. returnP (token_at p (current p + 1)) p) (\<lambda>nextCommand.
             bindP (defined nextCommand) (\<lambda>nc. returnP (Some (tok_value nc))))
           else returnP None)
       else returnP None)"

definition parseFieldData :: "Token option \<Rightarrow> Token \<Rightarrow> AnyZplCommand parser" where
  "parseFieldData startToken commandToken =
     (let raw = ''^'' @ tok_value commandToken in
      bindP (check PARAMETER) (\<lambda>c.
      bindP (if c then bindP advance (\<lambda>contentToken.
                       bindP (defined contentToken) (\<lambda>ct. returnP (tok_value ct)))
             else returnP '''') (\<lambda>content.
      bindP nextCommandValue (\<lambda>nextCommand.
      bindP (if nextCommand = Some ''FS''
             then bindP advance (\<lambda>_. bindP advance (\<lambda>_. returnP True))
             else returnP False) (\<lambda>stopCommand.
      bindP (defined startToken) (\<lambda>st.
        returnP (FieldDataCommand
          \<lparr>cmd_type = ''FIELD_DATA'', cmd_command = ''FD'', cmd_raw = raw,
            cmd_position = tok_position st,
            cmd_parameters = ParamObject [(''content'', content)]\<rparr>
          content stopCommand)))))))"

definition parseBarcode :: "Token option \<Rightarrow> Token \<Rightarrow> AnyZplCommand parser" where
  "parseBarcode startToken commandToken =
     (let raw = ''^'' @ tok_value commandToken in
      bindP parseParameters (\<lambda>parameters.
      let orientation = parseOrientation (param_at parameters 0);
          height = parseNumberParameter (param_at parameters 1) (Finite 10);
          printInterpretationLine = parseBooleanParameter (param_at parameters 2) True;
          printAboveCode = parseBooleanParameter (param_at parameters 3) False;
          mode = param_at parameters 4 in
      bindP nextCommandValue (\<lambda>nextCommand.
      bindP (if nextCommand = Some ''FD''
             then bindP advance (\<lambda>_. bindP advance (\<lambda>_.
                    bindP (check PARAMETER) (\<lambda>c.
                      if c then bindP advance (\<lambda>dataToken.
                                  bindP (defined dataToken) (\<lambda>dt. returnP (tok_value dt)))
                      else returnP '''')))
             else returnP '''') (\<lambda>data.
      bindP (defined startToken) (\<lambda>st.
        returnP (BarcodeCommand
          \<lparr>cmd_type = ''BARCODE'', cmd_command = tok_value commandToken, cmd_raw = raw,
            cmd_position = tok_position st, cmd_parameters = ParamArray parameters\<rparr>
          orientation height printInterpretationLine printAboveCode mode data))))))"

definition parseGraphicBox :: "Token option \<Rightarrow> Token \<Rightarrow> AnyZplCommand parser" where
  "parseGraphicBox startToken commandToken =
     (let raw = ''^'' @ tok_value commandToken in
      bindP parseParameters (\<lambda>parameters.
      let width = parseNumberParameter (param_at parameters 0) (Finite 1);
          height = parseNumberParameter (param_at parameters 1) (Finite 1);
          thickness = parseNumberParameter (param_at parameters 2) (Finite 1);
          color = (if param_at parameters 3 = Some ''W'' then ''W'' else ''B'');
          rounding = (if truthy (param_at parameters 4)
                      then Some (parseNumberParameter (param_at parameters 4) (Finite 0)) else None) in
      bindP (defined startToken) (\<lambda>st.
        returnP (GraphicBoxCommand
          \<lparr>cmd_type = ''GRAPHIC_BOX'', cmd_command = ''GB'', cmd_raw = raw,
            cmd_position = tok_position st, cmd_parameters = ParamArray parameters\<rparr>
          width height thickness color rounding))))"

definition parseFontSelection :: "Token option \<Rightarrow> Token \<Rightarrow> AnyZplCommand parser" where
  "parseFontSelection startToken commandToken =
     (let raw = ''^'' @ tok_value commandToken in
      bindP parseParameters (\<lambda>parameters.
      let font = (case param_at parameters 0 of
                    Some s \<Rightarrow> if truthy (Some s) then s else ''0''
                  | None \<Rightarrow> ''0'');
          orientation = parseOrientation (param_at parameters 1);
          height = parseNumberParameter (param_at parameters 2) (Finite 10);
          width = (if truthy (param_at parameters 3)
                   then Some (parseNumberParameter (param_at parameters 3) height) else None) in
      bindP (defined startToken) (\<lambda>st.
        returnP (FontSelectionCommand
          \<lparr>cmd_type = ''FONT_SELECTION'', cmd_command = ''A'', cmd_raw = raw,
            cmd_position = tok_position st, cmd_parameters = ParamArray parameters\<rparr>
          font orientation height width))))"

definition parseGenericCommand :: "Token option \<Rightarrow> Token \<Rightarrow> AnyZplCommand parser" where
  "parseGenericCommand startToken commandToken =
     (let raw = ''^'' @ tok_value commandToken in
      bindP parseParameters (\<lambda>parameters.
      bindP (defined startToken) (\<lambda>st.
        returnP (GenericCommand
          \<lparr>cmd_type = ''GENERIC_COMMAND'', cmd_command = tok_value commandToken, cmd_raw = raw,
            cmd_position = tok_position st, cmd_parameters = ParamArray parameters\<rparr>))))"

text \<open>The three stubs: \<open>return {} as ...\<close>, with no token read and nothing recorded.\<close>

definition parseFieldReverse :: "Token option \<Rightarrow> Token \<Rightarrow> AnyZplCommand parser" where
  "parseFieldReverse startToken commandToken = returnP EmptyObject"

definition parseChangeFont :: "Token option \<Rightarrow> Token \<Rightarrow> AnyZplCommand parser" where
  "parseChangeFont startToken commandToken = returnP EmptyObject"

definition parseGraphicField :: "Token option \<Rightarrow> Token \<Rightarrow> AnyZplCommand parser" where
  "parseGraphicField startToken commandToken = returnP EmptyObject"

subsection \<open>Dispatch, recovery and the driver\<close>

definition someP :: "'a parser \<Rightarrow> 'a option parser" where
  "someP m = bindP m (\<lambda>a. returnP (Some a))"

text \<open>The \<open>switch\<close> of \<open>parseCommand\<close> on the value of the command code.\<close>

definition dispatch :: "Token option \<Rightarrow> Token \<Rightarrow> AnyZplCommand parser" where
  "dispatch commandStart commandToken =
     (let v = tok_value commandToken in
      if v = ''XA'' then parseLabelStart commandStart commandToken
      else if v = ''XZ'' then parseLabelEnd commandStart commandToken
      else if v = ''LL'' then parseLabelLength commandStart commandToken
      else if v = ''LH'' then parseLabelHome commandStart commandToken
      else if v = ''FO'' then parseFieldOrigin commandStart commandToken
      else if v = ''FR'' then parseFieldReverse commandStart commandToken
      else if v = ''GB'' then parseGraphicBox commandStart commandToken
      else if v = ''FD'' then parseFieldData commandStart commandToken
      else if v = ''A'' then parseFontSelection commandStart commandToken
      else if v = ''CF'' then parseChangeFont commandStart commandToken
      else if v = ''BC'' \<or> v = ''B3'' \<or> v = ''BN'' then parseBarcode commandStart commandToken
      else if v = ''GF'' then parseGraphicField commandStart commandToken
      else bindP (addWarning (''Unsupported command: '' @ v) (tok_position commandToken))
             (\<lambda>_. parseGenericCommand commandStart commandToken))"

text \<open>\<open>parseCommand\<close>; the result \<open>None\<close> is \<open>null\<close>.\<close>

definition parseCommand :: "AnyZplCommand option parser" where
  "parseCommand =
     bindP (matchP [COMMAND_START]) (\<lambda>m.
       if m then
         bindP previous (\<lambda>commandStart.
         bindP (consume COMMAND_CODE ''Expected command code after ^'') (\<lambda>commandToken.
         bindP (defined commandToken) (\<lambda>ct.
           someP (dispatch commandStart ct))))
       else bindP advance (\<lambda>_. returnP None))"

text \<open>The \<open>while\<close> loop of \<open>synchronize\<close>.\<close>

function synchronize_loop :: "unit parser" where
  "synchronize_loop p =
     (case isAtEnd p of
        (Throw e, p1) \<Rightarrow> (Throw e, p1)
      | (Ok atEnd, p1) \<Rightarrow>
          if \<not> atEnd then
            (case bindP previous (\<lambda>t. bindP (defined t) (\<lambda>t. returnP (tok_type t = NEWLINE))) p1 of
               (Throw e, p2) \<Rightarrow> (Throw e, p2)
             | (Ok afterNewline, p2) \<Rightarrow>
                 if afterNewline then (Ok (), p2)
                 else
                   (case check COMMAND_START p2 of
                      (Throw e, p3) \<Rightarrow> (Throw e, p3)
                    | (Ok c, p3) \<Rightarrow>
                        if c then (Ok (), p3)
                        else
                          (case advance p3 of
                             (Throw e, p4) \<Rightarrow> (Throw e, p4)
                           | (Ok _, p4) \<Rightarrow> synchronize_loop p4)))
          else (Ok (), p1))"
  by pat_completeness auto
termination
  by (relation "measure (\<lambda>p. length (tokens p) - current p)")
     (auto simp: isAtEnd_eq check_eq advance_eq previous_def bindP_def returnP_def throwP_def
        defined_def token_at_def split: option.splits if_splits)

declare synchronize_loop.simps [simp del]

definition synchronize :: "unit parser" where
  "synchronize = bindP advance (\<lambda>_. synchronize_loop)"

text \<open>
  The body of the \<open>while\<close> loop of \<open>parse\<close>:
  \<open>try { command = parseCommand(); if (command) commands.push(command) }
   catch (error) { synchronize() }\<close>. The empty object is truthy, \<open>null\<close> is not.
\<close>

definition parse_step :: "AnyZplCommand list \<Rightarrow> AnyZplCommand list parser" where
  "parse_step cmds p =
     (case parseCommand p of
        (Ok command, p1) \<Rightarrow>
          (case command of None \<Rightarrow> (Ok cmds, p1) | Some c \<Rightarrow> (Ok (cmds @ [c]), p1))
      | (Throw error, p1) \<Rightarrow> bindP synchronize (\<lambda>_. returnP cmds) p1)"

subsection \<open>Every method moves the cursor forward only\<close>

text \<open>
  The token array of a parse call ends with the end-of-stream token, and the cursor stays
  inside the array.
\<close>

definition cursor_ok :: "ZplParser \<Rightarrow> bool" where
  "cursor_ok p \<longleftrightarrow>
     tokens p \<noteq> [] \<and> tok_type (last (tokens p)) = EOF \<and> current p < length (tokens p)"

definition steps :: "ZplParser \<Rightarrow> ZplParser \<Rightarrow> bool" where
  "steps p p' \<longleftrightarrow>
     tokens p' = tokens p \<and> current p \<le> current p' \<and> (cursor_ok p \<longrightarrow> cursor_ok p')
     \<and> prefix (errors p) (errors p')"

definition forward :: "'a parser \<Rightarrow> bool" where
  "forward m \<longleftrightarrow> (\<forall>p. steps p (snd (m p)))"

lemma steps_refl: "steps p p"
  by (simp add: steps_def)

lemma steps_trans: "steps p q \<Longrightarrow> steps q r \<Longrightarrow> steps p r"
  by (auto simp: steps_def)

lemma forwardD: "forward m \<Longrightarrow> steps p (snd (m p))"
  by (simp add: forward_def)

lemma forward_returnP: "forward (returnP a)"
  by (simp add: forward_def returnP_def steps_refl)

lemma forward_throwP: "forward (throwP e)"
  by (simp add: forward_def throwP_def steps_refl)

lemma forward_read: "forward (\<lambda>p. returnP (g p) p)"
  by (simp add: forward_def returnP_def steps_refl)

lemma forward_bindP:
  assumes "forward m" and "\<And>a. forward (f a)"
  shows "forward (bindP m f)"
proof (unfold forward_def, rule allI)
  fix p
  show "steps p (snd (bindP m f p))"
  proof (cases "m p")
    case (Pair r p')
    have a: "steps p p'" using forwardD [OF assms(1), of p] Pair by simp
    show ?thesis
    proof (cases r)
      case (Ok x)
      have "steps p' (snd (f x p'))" using assms(2) by (rule forwardD)
      with a show ?thesis using Pair Ok by (auto simp: bindP_def intro: steps_trans)
    next
      case (Throw e)
      with a show ?thesis using Pair by (simp add: bindP_def)
    qed
  qed
qed

lemma forward_if: "(c \<Longrightarrow> forward a) \<Longrightarrow> (\<not> c \<Longrightarrow> forward b) \<Longrightarrow> forward (if c then a else b)"
  by simp

lemma forward_defined: "forward (defined x)"
  by (cases x) (simp_all add: defined_def forward_returnP forward_throwP)

lemma forward_peek: "forward peek"
  unfolding peek_def by (rule forward_read)

lemma forward_peekNext: "forward peekNext"
  by (simp add: forward_def peekNext_def returnP_def steps_refl)

lemma forward_previous: "forward previous"
  unfolding previous_def by (rule forward_read)

lemma forward_isAtEnd: "forward isAtEnd"
  by (simp add: forward_def isAtEnd_eq steps_refl split: option.splits)

lemma forward_check: "forward (check ty)"
  by (simp add: forward_def check_eq steps_refl split: option.splits)

lemma cursor_ok_advance:
  assumes "cursor_ok p" and "tok_type (tokens p ! current p) \<noteq> EOF"
  shows "cursor_ok (p\<lparr>current := Suc (current p)\<rparr>)"
proof -
  have "current p \<noteq> length (tokens p) - 1"
    using assms by (auto simp: cursor_ok_def last_conv_nth)
  with assms(1) show ?thesis by (auto simp: cursor_ok_def)
qed

lemma forward_advance: "forward advance"
  by (auto simp: forward_def advance_eq steps_def token_at_def cursor_ok_advance
      split: option.splits)

lemma forward_matchP: "forward (matchP types)"
  by (induction types)
     (auto intro!: forward_returnP forward_bindP forward_check forward_advance)

lemma forward_addError: "forward (addError msg pos)"
  by (simp add: forward_def addError_def Let_def returnP_def steps_def cursor_ok_def)

lemma forward_addWarning: "forward (addWarning msg pos)"
  by (simp add: forward_def addWarning_def returnP_def steps_def cursor_ok_def)

lemmas forward_intros =
  forward_returnP forward_throwP forward_read forward_bindP forward_if forward_defined
  forward_peek forward_peekNext forward_previous forward_isAtEnd forward_check forward_advance
  forward_matchP forward_addError forward_addWarning

lemma forward_consume: "forward (consume ty msg)"
  unfolding consume_def by (intro forward_intros)

lemma steps_parseParameters_loop: "steps p (snd (parseParameters_loop parameters p))"
proof (induction parameters p rule: parseParameters_loop.induct)
  case (1 parameters p)
  show ?case
  proof (cases "token_at p (current p)")
    case None
    then show ?thesis
      by (subst parseParameters_loop.simps) (simp add: check_eq steps_refl)
  next
    case (Some t)
    show ?thesis
    proof (cases "tok_type t \<noteq> EOF \<and> tok_type t = PARAMETER")
      case False
      with Some show ?thesis
        by (subst parseParameters_loop.simps) (auto simp: check_eq steps_refl)
    next
      case True
      let ?p2 = "p\<lparr>current := current p + 1\<rparr>"
      have adv: "advance p = (Ok (Some t), ?p2)"
        using Some True by (simp add: advance_eq)
      have "steps p ?p2" using forwardD [OF forward_advance, of p] adv by simp
      moreover have "steps ?p2 (snd (parseParameters_loop (parameters @ [tok_value t]) ?p2))"
        using "1.IH" Some True adv by (auto simp: check_eq)
      moreover have "parseParameters_loop parameters p
          = parseParameters_loop (parameters @ [tok_value t]) ?p2"
        using Some True adv by (subst parseParameters_loop.simps) (simp add: check_eq)
      ultimately show ?thesis by (auto intro: steps_trans)
    qed
  qed
qed

lemma forward_parseParameters: "forward parseParameters"
  by (simp add: forward_def parseParameters_def steps_parseParameters_loop)

lemma forward_nextCommandValue: "forward nextCommandValue"
  unfolding nextCommandValue_def by (intro forward_intros)

lemmas forward_rule_intros = forward_intros forward_parseParameters forward_nextCommandValue

lemma forward_dispatch: "forward (dispatch commandStart commandToken)"
  unfolding dispatch_def Let_def parseLabelStart_def parseLabelEnd_def parseLabelLength_def
    parseLabelHome_def parseFieldOrigin_def parseFieldReverse_def parseGraphicBox_def
    parseFieldData_def parseFontSelection_def parseChangeFont_def parseBarcode_def
    parseGraphicField_def parseGenericCommand_def
  by (intro forward_rule_intros)

lemma forward_parseCommand: "forward parseCommand"
  unfolding parseCommand_def someP_def
  by (intro forward_rule_intros forward_consume forward_dispatch)

lemma steps_synchronize_loop: "steps p (snd (synchronize_loop p))"
proof (induction p rule: synchronize_loop.induct)
  case (1 p)
  show ?case
  proof (cases "token_at p (current p)")
    case None
    then show ?thesis
      by (subst synchronize_loop.simps) (simp add: isAtEnd_eq steps_refl)
  next
    case (Some t)
    let ?prev = "if current p = 0 then None else token_at p (current p - 1)"
    let ?p2 = "p\<lparr>current := current p + 1\<rparr>"
    consider (stop) "tok_type t = EOF \<or> ?prev = None
          \<or> (\<exists>u. ?prev = Some u \<and> tok_type u = NEWLINE) \<or> tok_type t = COMMAND_START"
      | (go) u where "tok_type t \<noteq> EOF" "?prev = Some u" "tok_type u \<noteq> NEWLINE"
          "tok_type t \<noteq> COMMAND_START"
      by (cases ?prev) auto
    then show ?thesis
    proof cases
      case stop
      have "snd (synchronize_loop p) = p"
        using Some stop
        by (subst synchronize_loop.simps)
           (auto simp: isAtEnd_eq check_eq previous_def bindP_def returnP_def throwP_def
              defined_def split: option.splits)
      then show ?thesis by (simp add: steps_refl)
    next
      case go
      have adv: "advance p = (Ok (Some t), ?p2)"
        using Some go by (simp add: advance_eq)
      have "steps p ?p2" using forwardD [OF forward_advance, of p] adv by simp
      moreover have "steps ?p2 (snd (synchronize_loop ?p2))"
        using "1.IH" Some go adv
        by (auto simp: isAtEnd_eq check_eq previous_def bindP_def returnP_def defined_def)
      moreover have "synchronize_loop p = synchronize_loop ?p2"
        using Some go adv
        by (subst synchronize_loop.simps)
           (auto simp: isAtEnd_eq check_eq previous_def bindP_def returnP_def defined_def)
      ultimately show ?thesis by (auto intro: steps_trans)
    qed
  qed
qed

lemma forward_synchronize: "forward synchronize"
  unfolding synchronize_def
  by (intro forward_intros) (simp add: forward_def steps_synchronize_loop)

lemma forward_parse_step: "forward (parse_step cmds)"
proof (unfold forward_def, rule allI)
  fix p
  show "steps p (snd (parse_step cmds p))"
  proof (cases "parseCommand p")
    case (Pair r p1)
    have a: "steps p p1" using forwardD [OF forward_parseCommand, of p] Pair by simp
    show ?thesis
    proof (cases r)
      case (Ok command)
      with a Pair show ?thesis by (simp add: parse_step_def split: option.splits)
    next
      case (Throw e)
      have "forward (bindP synchronize (\<lambda>_. returnP cmds))"
        by (intro forward_intros forward_synchronize)
      then have "steps p1 (snd (bindP synchronize (\<lambda>_. returnP cmds) p1))"
        by (rule forwardD)
      with a Pair Throw show ?thesis by (auto simp: parse_step_def intro: steps_trans)
    qed
  qed
qed

text \<open>
  \<open>parseCommand\<close> starts with \<open>match(COMMAND_START)\<close> or, when that fails, ends with
  \<open>advance()\<close>: away from the end-of-stream token either one moves the cursor, also when
  the rest of the method throws.
\<close>

lemma parseCommand_advances:
  assumes "isAtEnd p = (Ok False, p)"
  shows "current p < current (snd (parseCommand p))"
proof -
  obtain t where t: "token_at p (current p) = Some t" "tok_type t \<noteq> EOF"
    using assms by (auto simp: isAtEnd_eq split: option.splits)
  let ?p1 = "p\<lparr>current := current p + 1\<rparr>"
  let ?rest = "bindP previous (\<lambda>commandStart.
         bindP (consume COMMAND_CODE ''Expected command code after ^'') (\<lambda>commandToken.
         bindP (defined commandToken) (\<lambda>ct.
           someP (dispatch commandStart ct))))"
  show ?thesis
  proof (cases "tok_type t = COMMAND_START")
    case True
    have "forward ?rest"
      unfolding someP_def by (intro forward_intros forward_consume forward_dispatch)
    then have "steps ?p1 (snd (?rest ?p1))" by (rule forwardD)
    moreover have "parseCommand p = ?rest ?p1"
      using t True by (simp add: parseCommand_def bindP_def check_eq advance_eq returnP_def)
    ultimately show ?thesis by (simp add: steps_def)
  next
    case False
    then have "parseCommand p = (Ok None, ?p1)"
      using t by (simp add: parseCommand_def bindP_def check_eq advance_eq returnP_def)
    then show ?thesis by simp
  qed
qed

lemma parse_step_advances:
  assumes "isAtEnd p = (Ok False, p)"
  shows "current p < current (snd (parse_step cmds p))"
proof (cases "parseCommand p")
  case (Pair r p1)
  have a: "current p < current p1" using parseCommand_advances [OF assms] Pair by simp
  show ?thesis
  proof (cases r)
    case (Ok command)
    with a Pair show ?thesis by (simp add: parse_step_def split: option.splits)
  next
    case (Throw e)
    have "forward (bindP synchronize (\<lambda>_. returnP cmds))"
      by (intro forward_intros forward_synchronize)
    then have "steps p1 (snd (bindP synchronize (\<lambda>_. returnP cmds) p1))"
      by (rule forwardD)
    with a Pair Throw show ?thesis by (simp add: parse_step_def steps_def)
  qed
qed

text \<open>The \<open>while (!this.isAtEnd())\<close> loop of \<open>parse\<close>.\<close>

function parse_loop :: "AnyZplCommand list \<Rightarrow> AnyZplCommand list parser" where
  "parse_loop cmds p =
     (case isAtEnd p of
        (Throw e, p1) \<Rightarrow> (Throw e, p1)
      | (Ok atEnd, p1) \<Rightarrow>
          if \<not> atEnd then
            (case parse_step cmds p1 of
               (Throw e, p2) \<Rightarrow> (Throw e, p2)
             | (Ok cmds', p2) \<Rightarrow> parse_loop cmds' p2)
          else (Ok cmds, p1))"
  by pat_completeness auto
termination
proof (relation "measure (\<lambda>(cmds, p). length (tokens p) - current p)", goal_cases)
  case 1
  show ?case by simp
next
  case (2 cmds p r p1 atEnd r' p2 cmds')
  then have e: "isAtEnd p = (Ok False, p)" and p1: "p1 = p"
    by (auto simp: isAtEnd_eq split: option.splits)
  from 2 p1 have ps: "snd (parse_step cmds p) = p2"
    by (metis snd_conv)
  have "current p < length (tokens p)"
    using e by (auto simp: isAtEnd_eq token_at_def split: option.splits if_splits)
  moreover have "current p < current p2"
    using parse_step_advances [OF e, of cmds] ps by simp
  moreover have "tokens p2 = tokens p"
    using forwardD [OF forward_parse_step [of cmds], of p] ps by (simp add: steps_def)
  ultimately show ?case by simp
qed

declare parse_loop.simps [simp del]

text \<open>\<open>fo.x\<close> of a field-origin node, and \<open>lengthCmd.length\<close> of a label-length node.\<close>

fun fieldOriginX :: "AnyZplCommand \<Rightarrow> number option" where
  "fieldOriginX (FieldOriginCommand b x y) = Some x"
| "fieldOriginX _ = None"

fun labelLengthOf :: "AnyZplCommand \<Rightarrow> number option" where
  "labelLengthOf (LabelLengthCommand b l) = Some l"
| "labelLengthOf _ = None"

text \<open>
  \<open>calculateLabelWidth\<close>: \<open>undefined\<close> when no node has the type \<open>FIELD_ORIGIN\<close>, else
  \<open>Math.max(...fieldOrigins.map(fo => fo.x)) + 100\<close>. The spread passes one argument for
  each field-origin node. The standard sets no bound on the number of arguments of a call,
  but every engine has one and throws a \<open>RangeError\<close> beyond it; the bound is the
  parameter \<open>maxArguments\<close>. A node of the type without the field \<open>x\<close> (no rule builds one)
  would pass \<open>undefined\<close> and make the maximum \<open>NaN\<close>.
\<close>

definition calculateLabelWidth :: "nat \<Rightarrow> AnyZplCommand list \<Rightarrow> number option result" where
  "calculateLabelWidth maxArguments cmds =
     (let fieldOrigins = filter (\<lambda>cmd. node_type cmd = Some ''FIELD_ORIGIN'') cmds
      in if length fieldOrigins = 0 then Ok None
         else if maxArguments < length fieldOrigins then Throw RangeError
         else (case those (map fieldOriginX fieldOrigins) of
                 Some xs \<Rightarrow> Ok (Some (plus_constant (Math_max xs) 100))
               | None \<Rightarrow> Ok (Some NaN)))"

definition calculateLabelLength :: "AnyZplCommand list \<Rightarrow> number option" where
  "calculateLabelLength cmds =
     (case find (\<lambda>cmd. node_type cmd = Some ''LABEL_LENGTH'') cmds of
        None \<Rightarrow> None
      | Some lengthCmd \<Rightarrow> labelLengthOf lengthCmd)"

text \<open>
  \<open>parse(source)\<close> on a parser object in state \<open>p\<close>, on an engine that accepts
  \<open>maxArguments\<close> arguments in a call: a fresh tokenizer scans the source, the four fields
  are assigned, the loop runs, and the document is built from the fields; the call of
  \<open>calculateLabelWidth\<close> stands outside the \<open>try\<close> block of the loop, so what it throws
  leaves \<open>parse\<close>. The document shares the error and warning arrays with the object; the
  next call assigns new arrays to the fields and changes none in place, so a returned
  document is a value.
\<close>

definition parse :: "nat \<Rightarrow> string \<Rightarrow> ZplDocument parser" where
  "parse maxArguments source p =
     (let tokenizeResult = tokenize source;
          p0 = p\<lparr>tokens := fst tokenizeResult, errors := snd tokenizeResult, current := 0,
                 warnings := []\<rparr>
      in bindP (parse_loop []) (\<lambda>cmds p'.
           case calculateLabelWidth maxArguments cmds of
             Throw e \<Rightarrow> throwP e p'
           | Ok width \<Rightarrow>
               returnP
                 \<lparr>doc_type = ''ZPL_DOCUMENT'', commands = cmds,
                   metadata = \<lparr>md_source = source, md_errors = errors p',
                                md_warnings = warnings p',
                                labelWidth = width,
                                labelLength = calculateLabelLength cmds\<rparr>\<rparr> p') p0)"

text \<open>The state of a parser object created by \<open>new ZplParser()\<close>.\<close>

definition new_ZplParser :: ZplParser where
  "new_ZplParser = \<lparr>tokens = [], current = 0, errors = [], warnings = []\<rparr>"

section \<open>Notions used by the properties\<close>

text \<open>
  The document that a fresh parser object returns for a source text on an engine that
  accepts \<open>maxArguments\<close> arguments in a call, \<open>None\<close> if \<open>parse\<close> throws.
\<close>

definition parse_document :: "nat \<Rightarrow> string \<Rightarrow> ZplDocument option" where
  "parse_document maxArguments source =
     (case fst (parse maxArguments source new_ZplParser) of Ok d \<Rightarrow> Some d | Throw e \<Rightarrow> None)"

text \<open>The \<open>command\<close> field of each node, \<open>None\<close> where the node has none.\<close>

definition command_codes :: "ZplDocument \<Rightarrow> string option list" where
  "command_codes d = map (map_option cmd_command \<circ> base_fields) (commands d)"

definition node_types :: "ZplDocument \<Rightarrow> string option list" where
  "node_types d = map node_type (commands d)"

definition is_barcode :: "AnyZplCommand \<Rightarrow> bool" where
  "is_barcode cmd \<longleftrightarrow> node_type cmd = Some ''BARCODE''"

definition tok_offset :: "Token \<Rightarrow> nat" where
  "tok_offset t = offset (tok_position t)"

text \<open>Every command-marker token is directly followed by a command-code token.\<close>

fun marker_followed :: "Token list \<Rightarrow> bool" where
  "marker_followed [] = True"
| "marker_followed [t] = (tok_type t \<noteq> COMMAND_START)"
| "marker_followed (t # u # ts) =
     ((tok_type t = COMMAND_START \<longrightarrow> tok_type u = COMMAND_CODE) \<and> marker_followed (u # ts))"

text \<open>
  What holds of the tokens pushed so far while the scanner is at \<open>pos\<close>: their offsets
  ascend and do not exceed \<open>pos\<close>, none is the end-of-stream token, and every marker has
  its code.
\<close>

definition stream_ok :: "nat \<Rightarrow> Token list \<Rightarrow> bool" where
  "stream_ok pos ts \<longleftrightarrow>
     sorted (map tok_offset ts) \<and> (\<forall>t \<in> set ts. tok_offset t \<le> pos \<and> tok_type t \<noteq> EOF)
     \<and> marker_followed ts"

text \<open>A method that never throws a \<open>ParseError\<close> object (it may throw a \<open>TypeError\<close>).\<close>

definition no_thrown :: "'a parser \<Rightarrow> bool" where
  "no_thrown m \<longleftrightarrow> (\<forall>p e p'. m p \<noteq> (Throw (Thrown e), p'))"

text \<open>The state of the parser object when the loop of \<open>parse(source)\<close> starts.\<close>

definition parser_at_start :: "string \<Rightarrow> ZplParser" where
  "parser_at_start source =
     \<lparr>tokens = fst (tokenize source), current = 0, errors = snd (tokenize source),
       warnings = []\<rparr>"

text \<open>The codes that the \<open>switch\<close> of \<open>parseCommand\<close> names.\<close>

definition dispatched_codes :: "string list" where
  "dispatched_codes =
     [''XA'', ''XZ'', ''LL'', ''LH'', ''FO'', ''FR'', ''GB'', ''FD'', ''A'', ''CF'', ''BC'', ''B3'',
      ''BN'', ''GF'']"

text \<open>The invariant of the scanner.\<close>

definition scanned :: "ZplTokenizer \<Rightarrow> bool" where
  "scanned t \<longleftrightarrow> stream_ok (position t) (ttokens t)"

definition is_field_origin :: "AnyZplCommand \<Rightarrow> bool" where
  "is_field_origin cmd \<longleftrightarrow> node_type cmd = Some ''FIELD_ORIGIN''"

text \<open>
  Where \<open>synchronize\<close> stops: the cursor is at the end-of-stream token or at a command
  marker, or the token before the cursor is a newline.
\<close>

definition at_sync_point :: "ZplParser \<Rightarrow> bool" where
  "at_sync_point p \<longleftrightarrow>
     (case token_at p (current p) of
        None \<Rightarrow> False
      | Some t \<Rightarrow>
          tok_type t = EOF \<or> tok_type t = COMMAND_START
          \<or> (0 < current p
              \<and> (case token_at p (current p - 1) of
                    None \<Rightarrow> False
                  | Some u \<Rightarrow> tok_type u = NEWLINE)))"

text \<open>A text that is a decimal integer: decimal digits, at least one, after at most one sign.\<close>

definition is_decimal_integer :: "string \<Rightarrow> bool" where
  "is_decimal_integer v \<longleftrightarrow>
     (let ds = (if v \<noteq> [] \<and> (hd v = CHR ''+'' \<or> hd v = CHR ''-'') then tl v else v)
      in ds \<noteq> [] \<and> list_all isDigit ds)"

text \<open>
  A text that begins with a number: after white space and at most one sign comes a decimal
  digit; anything may follow.
\<close>

definition begins_with_number :: "string \<Rightarrow> bool" where
  "begins_with_number v \<longleftrightarrow>
     (\<exists>ws sgn d rest. v = ws @ sgn @ d # rest \<and> list_all isWhitespace ws
        \<and> (sgn = [] \<or> sgn = ''+'' \<or> sgn = ''-'') \<and> isDigit d)"

section \<open>Auxiliary facts\<close>

lemma token_at_current_update [simp]: "token_at (p\<lparr>current := c\<rparr>) i = token_at p i"
  by (simp add: token_at_def)

text \<open>At a marker that is followed by a code, \<open>parseCommand\<close> reads both and dispatches.\<close>

lemma parseCommand_at_command:
  assumes "token_at p (current p) = Some st" and "tok_type st = COMMAND_START"
    and "token_at p (current p + 1) = Some ct" and "tok_type ct = COMMAND_CODE"
  shows "parseCommand p = someP (dispatch (Some st) ct) (p\<lparr>current := current p + 2\<rparr>)"
  using assms
  by (simp add: parseCommand_def consume_def bindP_def check_eq advance_eq previous_def
      returnP_def defined_def)

subsection \<open>The tokens pushed by the scanner\<close>

lemma marker_followed_append:
  "marker_followed xs \<Longrightarrow> marker_followed ys \<Longrightarrow> marker_followed (xs @ ys)"
proof (induction xs rule: marker_followed.induct)
  case 1
  then show ?case by simp
next
  case (2 t)
  then show ?case by (cases ys) simp_all
next
  case (3 t u ts)
  then show ?case by simp
qed

lemma marker_followed_nth:
  "marker_followed ts \<Longrightarrow> i < length ts \<Longrightarrow> tok_type (ts ! i) = COMMAND_START
   \<Longrightarrow> Suc i < length ts \<and> tok_type (ts ! Suc i) = COMMAND_CODE"
proof (induction ts arbitrary: i rule: marker_followed.induct)
  case 1
  then show ?case by simp
next
  case (2 t)
  then show ?case by simp
next
  case (3 t u ts)
  show ?case
  proof (cases i)
    case 0
    with 3 show ?thesis by simp
  next
    case (Suc j)
    with 3 show ?thesis by simp
  qed
qed

lemma stream_ok_mono: "stream_ok pos ts \<Longrightarrow> pos \<le> pos' \<Longrightarrow> stream_ok pos' ts"
  by (auto simp: stream_ok_def)

lemma stream_ok_push:
  assumes "stream_ok pos ts" and "tok_offset tok = pos" and "tok_type tok \<noteq> EOF"
    and "tok_type tok \<noteq> COMMAND_START"
  shows "stream_ok pos (ts @ [tok])"
proof -
  have "marker_followed (ts @ [tok])"
    using assms by (intro marker_followed_append) (simp_all add: stream_ok_def)
  with assms show ?thesis by (auto simp: stream_ok_def sorted_append)
qed

lemma stream_ok_push_command:
  assumes "stream_ok pos ts" and "tok_offset a = pos" and "tok_offset b = pos"
    and "tok_type a = COMMAND_START" and "tok_type b = COMMAND_CODE"
  shows "stream_ok pos (ts @ [a, b])"
proof -
  have "marker_followed (ts @ [a, b])"
    using assms by (intro marker_followed_append) (simp_all add: stream_ok_def)
  with assms show ?thesis by (auto simp: stream_ok_def sorted_append)
qed

text \<open>The four character loops change nothing but the position and the column.\<close>

lemma tokenizeParameter_loop_advances:
  "\<exists>k. snd (tokenizeParameter_loop source parameter t) = advanceT k t"
proof (induction source parameter t rule: tokenizeParameter_loop.induct)
  case (1 source parameter t)
  show ?case
  proof (cases "position t < length source \<and> \<not> (source ! position t = CHR '','' \<or> source ! position t = CHR ''^''
            \<or> source ! position t = CHR 0x0A \<or> isWhitespace (source ! position t))")
    case True
    then have "tokenizeParameter_loop source parameter t
        = tokenizeParameter_loop source (parameter @ [source ! position t]) (advanceT 1 t)"
      by (subst tokenizeParameter_loop.simps) simp
    with True obtain k where "snd (tokenizeParameter_loop source parameter t) = advanceT k (advanceT 1 t)"
      using "1.IH" by auto
    then have "snd (tokenizeParameter_loop source parameter t) = advanceT (1 + k) t"
      by (simp add: advanceT_def)
    then show ?thesis by blast
  next
    case False
    then have "snd (tokenizeParameter_loop source parameter t) = advanceT 0 t"
      by (subst tokenizeParameter_loop.simps) (auto simp: advanceT_def)
    then show ?thesis by blast
  qed
qed

lemma tokenizeCommand_loop_advances:
  "\<exists>k. snd (tokenizeCommand_loop source commandCode t) = advanceT k t"
proof (induction source commandCode t rule: tokenizeCommand_loop.induct)
  case (1 source commandCode t)
  show ?case
  proof (cases "position t < length source \<and> isCommandChar (source ! position t)")
    case True
    then have "tokenizeCommand_loop source commandCode t
        = tokenizeCommand_loop source (commandCode @ [source ! position t]) (advanceT 1 t)"
      by (subst tokenizeCommand_loop.simps) simp
    with True obtain k where "snd (tokenizeCommand_loop source commandCode t) = advanceT k (advanceT 1 t)"
      using "1.IH" by auto
    then have "snd (tokenizeCommand_loop source commandCode t) = advanceT (1 + k) t"
      by (simp add: advanceT_def)
    then show ?thesis by blast
  next
    case False
    then have "snd (tokenizeCommand_loop source commandCode t) = advanceT 0 t"
      by (subst tokenizeCommand_loop.simps) (auto simp: advanceT_def)
    then show ?thesis by blast
  qed
qed

lemma tokenizeLineComment_loop_advances:
  "\<exists>k. snd (tokenizeLineComment_loop source comment t) = advanceT k t"
proof (induction source comment t rule: tokenizeLineComment_loop.induct)
  case (1 source comment t)
  show ?case
  proof (cases "position t < length source \<and> source ! position t \<noteq> CHR 0x0A")
    case True
    then have "tokenizeLineComment_loop source comment t
        = tokenizeLineComment_loop source (comment @ [source ! position t]) (advanceT 1 t)"
      by (subst tokenizeLineComment_loop.simps) simp
    with True obtain k where "snd (tokenizeLineComment_loop source comment t) = advanceT k (advanceT 1 t)"
      using "1.IH" by auto
    then have "snd (tokenizeLineComment_loop source comment t) = advanceT (1 + k) t"
      by (simp add: advanceT_def)
    then show ?thesis by blast
  next
    case False
    then have "snd (tokenizeLineComment_loop source comment t) = advanceT 0 t"
      by (subst tokenizeLineComment_loop.simps) (auto simp: advanceT_def)
    then show ?thesis by blast
  qed
qed

lemma tokenizeBlockComment_loop_advances:
  "\<exists>k. snd (tokenizeBlockComment_loop source comment t) = advanceT k t"
proof (induction source comment t rule: tokenizeBlockComment_loop.induct)
  case (1 source comment t)
  show ?case
  proof (cases "position t < length source - 1")
    case False
    then have "snd (tokenizeBlockComment_loop source comment t) = advanceT 0 t"
      by (subst tokenizeBlockComment_loop.simps) (auto simp: advanceT_def)
    then show ?thesis by blast
  next
    case True
    show ?thesis
    proof (cases "source ! position t = CHR ''*'' \<and> source ! (position t + 1) = CHR ''/''")
      case True
      with \<open>position t < length source - 1\<close>
      have "snd (tokenizeBlockComment_loop source comment t) = advanceT 2 t"
        by (subst tokenizeBlockComment_loop.simps) auto
      then show ?thesis by blast
    next
      case False
      with True have "tokenizeBlockComment_loop source comment t
          = tokenizeBlockComment_loop source (comment @ [source ! position t]) (advanceT 1 t)"
        by (subst tokenizeBlockComment_loop.simps) auto
      with True False obtain k where
        "snd (tokenizeBlockComment_loop source comment t) = advanceT k (advanceT 1 t)"
        using "1.IH" by auto
      then have "snd (tokenizeBlockComment_loop source comment t) = advanceT (1 + k) t"
        by (simp add: advanceT_def)
      then show ?thesis by blast
    qed
  qed
qed


lemma scanned_advanceT: "scanned t \<Longrightarrow> scanned (advanceT k t)"
  by (auto simp: scanned_def advanceT_def intro: stream_ok_mono)

lemma scanned_addErrorT: "scanned t \<Longrightarrow> scanned (addErrorT msg t)"
  by (simp add: scanned_def addErrorT_def)

text \<open>A token pushed after the scanner has moved on from the place where the token starts.\<close>

lemma scanned_push_later:
  assumes "scanned t" and "tok_offset tok = position t" and "tok_type tok \<noteq> EOF"
    and "tok_type tok \<noteq> COMMAND_START"
  shows "scanned (pushToken tok (advanceT k t))"
proof -
  have "stream_ok (position t) (ttokens t @ [tok])"
    using assms by (intro stream_ok_push) (simp_all add: scanned_def)
  then show ?thesis
    by (auto simp: scanned_def pushToken_def advanceT_def intro: stream_ok_mono)
qed

lemma scanned_tokenizeParameters:
  "scanned t \<Longrightarrow> scanned (tokenizeParameters source t)"
proof (induction source t rule: tokenizeParameters.induct)
  case (1 source t)
  let ?c = "source ! position t"
  let ?r = "tokenizeParameter_loop source [] t"
  let ?t1 = "if fst ?r \<noteq> [] then
                pushToken
                  \<lparr>tok_type = PARAMETER, tok_value = fst ?r,
                    tok_position = getCurrentPosition t, tok_raw = fst ?r\<rparr> (snd ?r)
              else snd ?r"
  consider (stop) "\<not> position t < length source \<or> ?c = CHR ''^'' \<or> ?c = CHR 0x0A"
    | (comma) "position t < length source" "\<not> (?c = CHR ''^'' \<or> ?c = CHR 0x0A)" "?c = CHR '',''"
    | (param) "position t < length source" "\<not> (?c = CHR ''^'' \<or> ?c = CHR 0x0A)" "?c \<noteq> CHR '',''"
        "\<not> isWhitespace ?c"
    | (space) "position t < length source" "\<not> (?c = CHR ''^'' \<or> ?c = CHR 0x0A)" "?c \<noteq> CHR '',''"
        "isWhitespace ?c"
    by blast
  then show ?case
  proof cases
    case stop
    then have "tokenizeParameters source t = t"
      by (subst tokenizeParameters.simps) auto
    with "1.prems" show ?thesis by simp
  next
    case comma
    then have "tokenizeParameters source t = tokenizeParameters source (advanceT 1 t)"
      by (subst tokenizeParameters.simps) simp
    with comma "1.IH"(1) "1.prems" show ?thesis by (simp add: scanned_advanceT)
  next
    case param
    obtain k where k: "snd ?r = advanceT k t"
      using tokenizeParameter_loop_advances by blast
    have "scanned ?t1"
      using "1.prems" k
      by (auto simp: scanned_advanceT tok_offset_def getCurrentPosition_def
          intro!: scanned_push_later)
    moreover have "tokenizeParameters source t = tokenizeParameters source ?t1"
      using param by (subst tokenizeParameters.simps) simp
    ultimately show ?thesis using param "1.IH"(2) by simp
  next
    case space
    then have "tokenizeParameters source t = tokenizeParameters source (advanceT 1 t)"
      by (subst tokenizeParameters.simps) simp
    with space "1.IH"(3) "1.prems" show ?thesis by (simp add: scanned_advanceT)
  qed
qed

lemma scanned_tokenizeCommand: "scanned t \<Longrightarrow> scanned (tokenizeCommand source t)"
proof -
  assume s: "scanned t"
  let ?r = "tokenizeCommand_loop source [] (advanceT 1 t)"
  let ?a = "\<lparr>tok_type = COMMAND_START, tok_value = ''^'', tok_position = getCurrentPosition t,
              tok_raw = ''^''\<rparr>"
  let ?b = "\<lparr>tok_type = COMMAND_CODE, tok_value = fst ?r,
              tok_position = (getCurrentPosition t)\<lparr>column := column (getCurrentPosition t) + 1\<rparr>,
              tok_raw = fst ?r\<rparr>"
  obtain k where "snd ?r = advanceT k (advanceT 1 t)"
    using tokenizeCommand_loop_advances by blast
  then have k: "snd ?r = advanceT (1 + k) t" by (simp add: advanceT_def)
  show ?thesis
  proof (cases "fst ?r \<noteq> []")
    case True
    have "stream_ok (position t) (ttokens t @ [?a, ?b])"
      using s by (intro stream_ok_push_command)
        (simp_all add: scanned_def tok_offset_def getCurrentPosition_def)
    then have "scanned (pushToken ?b (pushToken ?a (snd ?r)))"
      unfolding k by (auto simp: scanned_def pushToken_def advanceT_def intro: stream_ok_mono)
    then have "scanned (tokenizeParameters source (pushToken ?b (pushToken ?a (snd ?r))))"
      by (rule scanned_tokenizeParameters)
    with True show ?thesis by (simp add: tokenizeCommand_def Let_def)
  next
    case False
    have "scanned (addErrorT ''Empty command after ^'' (snd ?r))"
      unfolding k using s by (intro scanned_addErrorT scanned_advanceT)
    with False show ?thesis by (simp add: tokenizeCommand_def Let_def)
  qed
qed

lemma scanned_tokenize_step: "scanned t \<Longrightarrow> scanned (tokenize_step source t)"
proof -
  assume s: "scanned t"
  obtain k where k: "snd (tokenizeLineComment_loop source ''//'' (advanceT 2 t)) = advanceT (2 + k) t"
    using tokenizeLineComment_loop_advances [of source "''//''" "advanceT 2 t"]
    by (auto simp: advanceT_def)
  obtain j where j: "snd (tokenizeBlockComment_loop source ''/*'' (advanceT 2 t)) = advanceT (2 + j) t"
    using tokenizeBlockComment_loop_advances [of source "''/*''" "advanceT 2 t"]
    by (auto simp: advanceT_def)
  have line: "scanned (tokenizeLineComment source t)"
    unfolding tokenizeLineComment_def Let_def k using s
    by (intro scanned_push_later) (simp_all add: tok_offset_def getCurrentPosition_def)
  have block: "scanned (tokenizeBlockComment source t)"
    unfolding tokenizeBlockComment_def Let_def j using s
    by (intro scanned_push_later) (simp_all add: tok_offset_def getCurrentPosition_def)
  have "stream_ok (position t)
          (ttokens t @ [\<lparr>tok_type = NEWLINE, tok_value = [CHR 0x0A],
             tok_position = getCurrentPosition t, tok_raw = [CHR 0x0A]\<rparr>])"
    using s by (intro stream_ok_push) (simp_all add: scanned_def tok_offset_def getCurrentPosition_def)
  then have newline: "scanned (tokenizeNewline t)"
    by (auto simp: scanned_def tokenizeNewline_def pushToken_def intro: stream_ok_mono)
  show ?thesis
    using s line block newline
    by (simp add: tokenize_step_def Let_def scanned_tokenizeCommand scanned_advanceT
        scanned_addErrorT)
qed

lemma scanned_tokenize_loop: "scanned t \<Longrightarrow> scanned (tokenize_loop source t)"
proof (induction source t rule: tokenize_loop.induct)
  case (1 source t)
  show ?case
  proof (cases "position t < length source")
    case True
    then have "tokenize_loop source t = tokenize_loop source (tokenize_step source t)"
      by (subst tokenize_loop.simps) simp
    with True 1 show ?thesis by (simp add: scanned_tokenize_step)
  next
    case False
    then have "tokenize_loop source t = t" by (subst tokenize_loop.simps) simp
    with 1 show ?thesis by simp
  qed
qed

lemma scanned_tokenize: "scanned (tokenize_loop source tokenize_init)"
  by (rule scanned_tokenize_loop) (simp add: scanned_def stream_ok_def tokenize_init_def)

subsection \<open>Only \<open>consume\<close> throws a \<open>ParseError\<close> object\<close>

lemma no_thrownD: "no_thrown m \<Longrightarrow> m p \<noteq> (Throw (Thrown e), p')"
  by (simp add: no_thrown_def)

lemma no_thrown_returnP: "no_thrown (returnP a)"
  by (simp add: no_thrown_def returnP_def)

lemma no_thrown_TypeError: "no_thrown (throwP TypeError)"
  by (simp add: no_thrown_def throwP_def)

lemma no_thrown_read: "no_thrown (\<lambda>p. returnP (g p) (h p))"
  by (simp add: no_thrown_def returnP_def)

lemma no_thrown_bindP:
  assumes "no_thrown m" and "\<And>a. no_thrown (f a)"
  shows "no_thrown (bindP m f)"
proof (unfold no_thrown_def, intro allI notI)
  fix p e p'
  assume b: "bindP m f p = (Throw (Thrown e), p')"
  show False
  proof (cases "m p")
    case (Pair r q)
    show ?thesis
    proof (cases r)
      case (Ok a)
      with Pair b have "f a q = (Throw (Thrown e), p')" by (simp add: bindP_def)
      with assms(2) show False by (simp add: no_thrown_def)
    next
      case (Throw x)
      with Pair b have "m p = (Throw (Thrown e), p')" by (simp add: bindP_def)
      with assms(1) show False by (simp add: no_thrown_def)
    qed
  qed
qed

lemma no_thrown_if:
  "(c \<Longrightarrow> no_thrown a) \<Longrightarrow> (\<not> c \<Longrightarrow> no_thrown b) \<Longrightarrow> no_thrown (if c then a else b)"
  by simp

lemma no_thrown_defined: "no_thrown (defined x)"
  by (cases x) (simp_all add: defined_def no_thrown_returnP no_thrown_TypeError)

lemma no_thrown_peek: "no_thrown peek"
  by (simp add: no_thrown_def peek_def returnP_def)

lemma no_thrown_peekNext: "no_thrown peekNext"
  by (simp add: no_thrown_def peekNext_def returnP_def)

lemma no_thrown_previous: "no_thrown previous"
  by (simp add: no_thrown_def previous_def returnP_def)

lemma no_thrown_isAtEnd: "no_thrown isAtEnd"
  by (simp add: no_thrown_def isAtEnd_eq split: option.splits)

lemma no_thrown_check: "no_thrown (check ty)"
  by (simp add: no_thrown_def check_eq split: option.splits)

lemma no_thrown_advance: "no_thrown advance"
  by (simp add: no_thrown_def advance_eq split: option.splits)

lemma no_thrown_addError: "no_thrown (addError msg pos)"
  by (simp add: no_thrown_def addError_def Let_def returnP_def)

lemma no_thrown_addWarning: "no_thrown (addWarning msg pos)"
  by (simp add: no_thrown_def addWarning_def returnP_def)

lemmas no_thrown_intros =
  no_thrown_returnP no_thrown_TypeError no_thrown_read no_thrown_bindP no_thrown_if
  no_thrown_defined no_thrown_peek no_thrown_peekNext no_thrown_previous no_thrown_isAtEnd
  no_thrown_check no_thrown_advance no_thrown_addError no_thrown_addWarning

lemma no_thrown_matchP: "no_thrown (matchP types)"
  by (induction types) (auto intro!: no_thrown_intros)

lemma parseParameters_loop_not_thrown:
  "parseParameters_loop parameters p \<noteq> (Throw (Thrown e), p')"
proof (induction parameters p rule: parseParameters_loop.induct)
  case (1 parameters p)
  show ?case
  proof (cases "token_at p (current p)")
    case None
    then show ?thesis
      by (subst parseParameters_loop.simps) (simp add: check_eq)
  next
    case (Some t)
    show ?thesis
    proof (cases "tok_type t \<noteq> EOF \<and> tok_type t = PARAMETER")
      case False
      with Some show ?thesis
        by (subst parseParameters_loop.simps) (auto simp: check_eq)
    next
      case True
      let ?p2 = "p\<lparr>current := current p + 1\<rparr>"
      have adv: "advance p = (Ok (Some t), ?p2)"
        using Some True by (simp add: advance_eq)
      have "parseParameters_loop (parameters @ [tok_value t]) ?p2 \<noteq> (Throw (Thrown e), p')"
        using "1.IH" Some True adv by (auto simp: check_eq)
      moreover have "parseParameters_loop parameters p
          = parseParameters_loop (parameters @ [tok_value t]) ?p2"
        using Some True adv by (subst parseParameters_loop.simps) (simp add: check_eq)
      ultimately show ?thesis by simp
    qed
  qed
qed

lemma no_thrown_parseParameters: "no_thrown parseParameters"
  by (simp add: no_thrown_def parseParameters_def parseParameters_loop_not_thrown)

lemma no_thrown_nextCommandValue: "no_thrown nextCommandValue"
  unfolding nextCommandValue_def by (intro no_thrown_intros)

lemma no_thrown_dispatch: "no_thrown (dispatch commandStart commandToken)"
  unfolding dispatch_def Let_def parseLabelStart_def parseLabelEnd_def parseLabelLength_def
    parseLabelHome_def parseFieldOrigin_def parseFieldReverse_def parseGraphicBox_def
    parseFieldData_def parseFontSelection_def parseChangeFont_def parseBarcode_def
    parseGraphicField_def parseGenericCommand_def
  by (intro no_thrown_intros no_thrown_parseParameters no_thrown_nextCommandValue)

lemma consume_thrown:
  assumes "consume ty msg p = (Throw (Thrown e), p')"
  shows "e \<in> set (errors p')"
  using assms
  by (auto simp: consume_def bindP_def check_eq advance_eq peek_def returnP_def throwP_def
      defined_def addError_def Let_def split: option.splits if_splits)

text \<open>A \<open>ParseError\<close> object thrown by \<open>parseCommand\<close> is in the error list.\<close>

lemma parseCommand_thrown:
  assumes "parseCommand p = (Throw (Thrown e), p')"
  shows "e \<in> set (errors p')"
proof (cases "matchP [COMMAND_START] p")
  case (Pair r p1)
  show ?thesis
  proof (cases r)
    case (Throw x)
    with Pair assms have "matchP [COMMAND_START] p = (Throw (Thrown e), p')"
      by (simp add: parseCommand_def bindP_def)
    then show ?thesis using no_thrownD [OF no_thrown_matchP] by blast
  next
    case (Ok m)
    show ?thesis
    proof (cases m)
      case False
      with Pair Ok assms have "bindP advance (\<lambda>_. returnP (None :: AnyZplCommand option)) p1
          = (Throw (Thrown e), p')"
        by (simp add: parseCommand_def bindP_def)
      moreover have "no_thrown (bindP advance (\<lambda>_. returnP (None :: AnyZplCommand option)))"
        by (intro no_thrown_intros)
      ultimately show ?thesis using no_thrownD by blast
    next
      case True
      let ?cs = "if current p1 = 0 then None else token_at p1 (current p1 - 1)"
      let ?k = "\<lambda>commandToken. bindP (defined commandToken) (\<lambda>ct.
                  someP (dispatch ?cs ct))"
      from Pair Ok True assms
      have run: "bindP (consume COMMAND_CODE ''Expected command code after ^'') ?k p1
                   = (Throw (Thrown e), p')"
        by (simp add: parseCommand_def bindP_def previous_def returnP_def)
      show ?thesis
      proof (cases "consume COMMAND_CODE ''Expected command code after ^'' p1")
        case (Pair r2 p2)
        show ?thesis
        proof (cases r2)
          case (Throw x)
          with Pair run
          have "consume COMMAND_CODE ''Expected command code after ^'' p1 = (Throw (Thrown e), p')"
            by (simp add: bindP_def)
          then show ?thesis by (rule consume_thrown)
        next
          case (Ok commandToken)
          with Pair run have "?k commandToken p2 = (Throw (Thrown e), p')"
            by (simp add: bindP_def)
          moreover have "no_thrown (?k commandToken)"
            unfolding someP_def by (intro no_thrown_intros no_thrown_dispatch)
          ultimately show ?thesis using no_thrownD by blast
        qed
      qed
    qed
  qed
qed

text \<open>On a stream where every marker has its code, \<open>parseCommand\<close> throws no \<open>ParseError\<close>.\<close>

lemma parseCommand_not_thrown:
  assumes "marker_followed (tokens p)"
  shows "parseCommand p \<noteq> (Throw (Thrown e), p')"
proof (cases "token_at p (current p)")
  case None
  then show ?thesis
    by (simp add: parseCommand_def bindP_def check_eq)
next
  case (Some st)
  show ?thesis
  proof (cases "tok_type st = COMMAND_START")
    case False
    with Some show ?thesis
      by (simp add: parseCommand_def bindP_def check_eq advance_eq returnP_def)
  next
    case True
    have i: "current p < length (tokens p)" "tokens p ! current p = st"
      using Some by (auto simp: token_at_def split: if_splits)
    with True assms have "Suc (current p) < length (tokens p)
        \<and> tok_type (tokens p ! Suc (current p)) = COMMAND_CODE"
      by (intro marker_followed_nth) simp_all
    then have "token_at p (current p + 1) = Some (tokens p ! Suc (current p))"
      "tok_type (tokens p ! Suc (current p)) = COMMAND_CODE"
      by (simp_all add: token_at_def)
    with Some True
    have "parseCommand p =
        someP (dispatch (Some st) (tokens p ! Suc (current p))) (p\<lparr>current := current p + 2\<rparr>)"
      by (intro parseCommand_at_command) simp_all
    moreover have "no_thrown (someP (dispatch (Some st) (tokens p ! Suc (current p))))"
      unfolding someP_def by (intro no_thrown_intros no_thrown_dispatch)
    ultimately show ?thesis using no_thrownD by metis
  qed
qed

lemma tokenize_marker_followed: "marker_followed (fst (tokenize s))"
proof -
  have "marker_followed (ttokens (tokenize_loop s tokenize_init))"
    using scanned_tokenize [of s] by (simp add: scanned_def stream_ok_def)
  then show ?thesis
    by (auto simp: tokenize_def Let_def intro: marker_followed_append)
qed

text \<open>A marker that no command-code character follows: one lexical error and no token.\<close>

lemma tokenizeCommand_empty:
  assumes "\<not> (position t + 1 < length source \<and> isCommandChar (source ! (position t + 1)))"
  shows "tokenizeCommand source t =
           (advanceT 1 t)
             \<lparr>terrors := terrors t @
                [\<lparr>err_message = ''Empty command after ^'',
                  err_position = \<lparr>line = tline t, column = tcolumn t + 1, offset = position t + 1\<rparr>,
                  err_severity = ''ERROR'', err_code = ''TOKENIZER_ERROR''\<rparr>]\<rparr>"
proof -
  have "tokenizeCommand_loop source [] (advanceT 1 t) = ([], advanceT 1 t)"
    using assms by (subst tokenizeCommand_loop.simps) (auto simp: advanceT_def)
  then show ?thesis
    by (simp add: tokenizeCommand_def Let_def addErrorT_def getCurrentPosition_def advanceT_def)
qed

subsection \<open>The loop of \<open>parse\<close> returns\<close>

lemma cursor_ok_token:
  assumes "cursor_ok p"
  obtains t where "token_at p (current p) = Some t"
  using assms by (simp add: cursor_ok_def token_at_def)

lemma synchronize_loop_returns:
  "cursor_ok p \<Longrightarrow> 0 < current p \<Longrightarrow> \<exists>q. synchronize_loop p = (Ok (), q)"
proof (induction p rule: synchronize_loop.induct)
  case (1 p)
  from "1.prems" obtain t where t: "token_at p (current p) = Some t"
    by (auto elim: cursor_ok_token)
  define u where "u = tokens p ! (current p - 1)"
  have u: "token_at p (current p - 1) = Some u"
    using "1.prems" by (auto simp: cursor_ok_def token_at_def u_def)
  let ?p2 = "p\<lparr>current := current p + 1\<rparr>"
  consider (stop) "tok_type t = EOF \<or> tok_type u = NEWLINE \<or> tok_type t = COMMAND_START"
    | (go) "tok_type t \<noteq> EOF" "tok_type u \<noteq> NEWLINE" "tok_type t \<noteq> COMMAND_START"
    by blast
  then show ?case
  proof cases
    case stop
    then have "synchronize_loop p = (Ok (), p)"
      using t u "1.prems"
      by (subst synchronize_loop.simps)
         (auto simp: isAtEnd_eq check_eq previous_def bindP_def returnP_def defined_def)
    then show ?thesis by blast
  next
    case go
    have adv: "advance p = (Ok (Some t), ?p2)"
      using t go by (simp add: advance_eq)
    have "cursor_ok ?p2"
      using cursor_ok_advance [of p] "1.prems" t go by (simp add: token_at_def split: if_splits)
    then have "\<exists>q. synchronize_loop ?p2 = (Ok (), q)"
      using "1.IH" t u go adv "1.prems"
      by (auto simp: isAtEnd_eq check_eq previous_def bindP_def returnP_def defined_def)
    moreover have "synchronize_loop p = synchronize_loop ?p2"
      using t u go adv "1.prems"
      by (subst synchronize_loop.simps)
         (auto simp: isAtEnd_eq check_eq previous_def bindP_def returnP_def defined_def)
    ultimately show ?thesis by simp
  qed
qed

lemma synchronize_returns:
  assumes "cursor_ok p" and "0 < current p"
  shows "\<exists>q. synchronize p = (Ok (), q)"
proof -
  from assms obtain t where t: "token_at p (current p) = Some t"
    by (auto elim: cursor_ok_token)
  obtain r p1 where a: "advance p = (Ok r, p1)"
    using t by (cases "tok_type t = EOF") (auto simp: advance_eq)
  have "steps p p1" using forwardD [OF forward_advance, of p] a by simp
  with assms have "cursor_ok p1" "0 < current p1" by (auto simp: steps_def)
  then obtain q where "synchronize_loop p1 = (Ok (), q)"
    using synchronize_loop_returns by blast
  with a show ?thesis by (simp add: synchronize_def bindP_def)
qed

lemma parse_step_returns:
  assumes "cursor_ok p" and "isAtEnd p = (Ok False, p)"
  shows "\<exists>cmds' q. parse_step cmds p = (Ok cmds', q) \<and> cursor_ok q"
proof (cases "parseCommand p")
  case (Pair r p1)
  have "steps p p1" using forwardD [OF forward_parseCommand, of p] Pair by simp
  with assms have ok: "cursor_ok p1" by (simp add: steps_def)
  have pos: "0 < current p1" using parseCommand_advances [OF assms(2)] Pair by simp
  show ?thesis
  proof (cases r)
    case (Ok command)
    with Pair ok show ?thesis by (cases command) (simp_all add: parse_step_def)
  next
    case (Throw e)
    from ok pos obtain q where q: "synchronize p1 = (Ok (), q)"
      using synchronize_returns by blast
    have "steps p1 q" using forwardD [OF forward_synchronize, of p1] q by simp
    with ok have "cursor_ok q" by (simp add: steps_def)
    with Pair Throw q show ?thesis by (simp add: parse_step_def bindP_def returnP_def)
  qed
qed

lemma parse_loop_returns:
  "cursor_ok p \<Longrightarrow> \<exists>cmds' q. parse_loop cmds p = (Ok cmds', q) \<and> steps p q"
proof (induction cmds p rule: parse_loop.induct)
  case (1 cmds p)
  from "1.prems" obtain t where t: "token_at p (current p) = Some t"
    by (auto elim: cursor_ok_token)
  show ?case
  proof (cases "tok_type t = EOF")
    case True
    with t have "parse_loop cmds p = (Ok cmds, p)"
      by (subst parse_loop.simps) (simp add: isAtEnd_eq)
    then show ?thesis by (simp add: steps_refl)
  next
    case False
    with t have e: "isAtEnd p = (Ok False, p)" by (simp add: isAtEnd_eq)
    from parse_step_returns [OF "1.prems" e, of cmds]
    obtain cmds' q where s: "parse_step cmds p = (Ok cmds', q)" "cursor_ok q" by blast
    have pq: "steps p q" using forwardD [OF forward_parse_step [of cmds], of p] s by simp
    have "\<exists>cmds'' q'. parse_loop cmds' q = (Ok cmds'', q') \<and> steps q q'"
      using "1.IH" [OF e [symmetric] refl _ s(1) [symmetric] refl s(2)] by simp
    then obtain cmds'' q' where l: "parse_loop cmds' q = (Ok cmds'', q')" "steps q q'"
      by blast
    have "parse_loop cmds p = parse_loop cmds' q"
      using e s by (subst parse_loop.simps) simp
    with l pq show ?thesis by (auto intro: steps_trans)
  qed
qed

lemma tokenize_last_EOF:
  "fst (tokenize s) \<noteq> [] \<and> tok_type (last (fst (tokenize s))) = EOF"
  by (simp add: tokenize_def Let_def)

subsection \<open>Where \<open>synchronize\<close> stops\<close>

lemma synchronize_loop_sync_point:
  "cursor_ok p \<Longrightarrow> 0 < current p \<Longrightarrow> at_sync_point (snd (synchronize_loop p))"
proof (induction p rule: synchronize_loop.induct)
  case (1 p)
  from "1.prems" obtain t where t: "token_at p (current p) = Some t"
    by (auto elim: cursor_ok_token)
  define u where "u = tokens p ! (current p - 1)"
  have u: "token_at p (current p - 1) = Some u"
    using "1.prems" by (auto simp: cursor_ok_def token_at_def u_def)
  let ?p2 = "p\<lparr>current := current p + 1\<rparr>"
  consider (stop) "tok_type t = EOF \<or> tok_type u = NEWLINE \<or> tok_type t = COMMAND_START"
    | (go) "tok_type t \<noteq> EOF" "tok_type u \<noteq> NEWLINE" "tok_type t \<noteq> COMMAND_START"
    by blast
  then show ?case
  proof cases
    case stop
    then have "synchronize_loop p = (Ok (), p)"
      using t u "1.prems"
      by (subst synchronize_loop.simps)
         (auto simp: isAtEnd_eq check_eq previous_def bindP_def returnP_def defined_def)
    moreover have "at_sync_point p"
      using stop t u "1.prems" by (auto simp: at_sync_point_def)
    ultimately show ?thesis by simp
  next
    case go
    have adv: "advance p = (Ok (Some t), ?p2)"
      using t go by (simp add: advance_eq)
    have "cursor_ok ?p2"
      using cursor_ok_advance [of p] "1.prems" t go by (simp add: token_at_def split: if_splits)
    then have "at_sync_point (snd (synchronize_loop ?p2))"
      using "1.IH" t u go adv "1.prems"
      by (auto simp: isAtEnd_eq check_eq previous_def bindP_def returnP_def defined_def)
    moreover have "synchronize_loop p = synchronize_loop ?p2"
      using t u go adv "1.prems"
      by (subst synchronize_loop.simps)
         (auto simp: isAtEnd_eq check_eq previous_def bindP_def returnP_def defined_def)
    ultimately show ?thesis by simp
  qed
qed

lemma synchronize_sync_point:
  assumes "cursor_ok p" and "0 < current p"
  shows "\<exists>q. synchronize p = (Ok (), q) \<and> at_sync_point q \<and> cursor_ok q"
proof -
  from assms obtain t where t: "token_at p (current p) = Some t"
    by (auto elim: cursor_ok_token)
  obtain r p1 where a: "advance p = (Ok r, p1)"
    using t by (cases "tok_type t = EOF") (auto simp: advance_eq)
  have "steps p p1" using forwardD [OF forward_advance, of p] a by simp
  with assms have p1: "cursor_ok p1" "0 < current p1" by (auto simp: steps_def)
  then obtain q where q: "synchronize_loop p1 = (Ok (), q)"
    using synchronize_loop_returns by blast
  have "at_sync_point q" using synchronize_loop_sync_point [OF p1] q by simp
  moreover have "steps p1 q" using steps_synchronize_loop [of p1] q by simp
  then have "cursor_ok q" using p1 by (simp add: steps_def)
  ultimately show ?thesis using a q by (simp add: synchronize_def bindP_def)
qed

text \<open>
  When \<open>parseCommand\<close> throws, whatever it throws, the iteration runs \<open>synchronize\<close> and
  ends at a place where \<open>synchronize\<close> stops, with the command list unchanged.
\<close>

lemma parse_step_recovers:
  assumes "cursor_ok p" and "isAtEnd p = (Ok False, p)" and "parseCommand p = (Throw e, p1)"
  shows "\<exists>q. synchronize p1 = (Ok (), q) \<and> parse_step cmds p = (Ok cmds, q)
            \<and> at_sync_point q \<and> cursor_ok q"
proof -
  have "steps p p1" using forwardD [OF forward_parseCommand, of p] assms(3) by simp
  with assms(1) have ok: "cursor_ok p1" by (simp add: steps_def)
  have pos: "0 < current p1" using parseCommand_advances [OF assms(2)] assms(3) by simp
  from synchronize_sync_point [OF ok pos]
  obtain q where "synchronize p1 = (Ok (), q)" "at_sync_point q" "cursor_ok q" by blast
  then show ?thesis using assms(3) by (simp add: parse_step_def bindP_def returnP_def)
qed

subsection \<open>When \<open>parseInt\<close> reads a number\<close>

lemma roundInt_not_NaN: "roundInt m \<noteq> NaN" "negate (roundInt m) \<noteq> NaN"
  by (simp_all add: roundInt_def Let_def)

lemma digit_not_other:
  assumes "isDigit d"
  shows "\<not> isWhitespace d" and "d \<noteq> CHR ''+''" and "d \<noteq> CHR ''-''"
  using assms by (auto simp: isDigit_def isWhitespace_def)

lemma parseInt_NaN_iff: "parseInt (Some v) = NaN \<longleftrightarrow> \<not> begins_with_number v"
proof -
  let ?S = "dropWhile isWhitespace v"
  let ?S' = "if ?S \<noteq> [] \<and> (hd ?S = CHR ''+'' \<or> hd ?S = CHR ''-'') then tl ?S else ?S"
  have nan: "parseInt (Some v) = NaN \<longleftrightarrow> takeWhile isDigit ?S' = []"
    by (simp add: parseInt_def Let_def roundInt_not_NaN)
  have digit: "takeWhile isDigit ?S' \<noteq> [] \<longleftrightarrow> (?S' \<noteq> [] \<and> isDigit (hd ?S'))"
    by (cases ?S') (auto simp: takeWhile_eq_Nil_iff)
  have "begins_with_number v \<longleftrightarrow> (?S' \<noteq> [] \<and> isDigit (hd ?S'))"
  proof
    assume "begins_with_number v"
    then obtain ws sgn d rest where v: "v = ws @ sgn @ d # rest"
      and ws: "list_all isWhitespace ws"
      and sgn: "sgn = [] \<or> sgn = ''+'' \<or> sgn = ''-''" and d: "isDigit d"
      by (auto simp: begins_with_number_def)
    have "\<not> isWhitespace (hd (sgn @ d # rest))"
      using sgn digit_not_other(1) [OF d] by (auto simp: isWhitespace_def)
    then have S: "?S = sgn @ d # rest"
      using ws sgn unfolding v
      by (cases "sgn @ d # rest") (auto simp: dropWhile_append list_all_iff)
    from sgn d show "?S' \<noteq> [] \<and> isDigit (hd ?S')"
      unfolding S by (auto simp: digit_not_other)
  next
    assume a: "?S' \<noteq> [] \<and> isDigit (hd ?S')"
    have v: "v = takeWhile isWhitespace v @ ?S" by simp
    have ws: "list_all isWhitespace (takeWhile isWhitespace v)"
      by (auto simp: list_all_iff dest: set_takeWhileD)
    show "begins_with_number v"
    proof (cases "?S \<noteq> [] \<and> (hd ?S = CHR ''+'' \<or> hd ?S = CHR ''-'')")
      case True
      with a obtain d rest where "?S = hd ?S # d # rest" "isDigit d"
        by (cases ?S; cases "tl ?S") auto
      with True v ws show ?thesis
        unfolding begins_with_number_def
        by (intro exI [of _ "takeWhile isWhitespace v"] exI [of _ "[hd ?S]"] exI [of _ d]
            exI [of _ rest]) auto
    next
      case False
      with a obtain d rest where "?S = d # rest" "isDigit d"
        by (cases ?S) auto
      with v ws show ?thesis
        unfolding begins_with_number_def
        by (intro exI [of _ "takeWhile isWhitespace v"] exI [of _ "[]"] exI [of _ d]
            exI [of _ rest]) auto
    qed
  qed
  with nan digit show ?thesis by blast
qed

subsection \<open>\<open>parse\<close> in terms of its loop\<close>

lemma parse_start:
  "p\<lparr>tokens := fst (tokenize s), errors := snd (tokenize s), current := 0, warnings := []\<rparr>
     = parser_at_start s"
  by (cases p) (simp add: parser_at_start_def)

lemma parse_eq:
  "parse maxArguments s p =
     (case parse_loop [] (parser_at_start s) of
        (Ok cmds, p') \<Rightarrow>
          (case calculateLabelWidth maxArguments cmds of
             Throw e \<Rightarrow> (Throw e, p')
           | Ok width \<Rightarrow>
               (Ok \<lparr>doc_type = ''ZPL_DOCUMENT'', commands = cmds,
                     metadata = \<lparr>md_source = s, md_errors = errors p',
                                  md_warnings = warnings p', labelWidth = width,
                                  labelLength = calculateLabelLength cmds\<rparr>\<rparr>, p'))
      | (Throw e, p') \<Rightarrow> (Throw e, p'))"
  by (simp add: parse_def Let_def parse_start bindP_def returnP_def throwP_def
      split: prod.splits result.splits)

lemma parse_loop_from_start:
  "\<exists>cmds p'. parse_loop [] (parser_at_start s) = (Ok cmds, p') \<and> steps (parser_at_start s) p'"
proof -
  have "cursor_ok (parser_at_start s)"
    using tokenize_last_EOF [of s] by (simp add: cursor_ok_def parser_at_start_def)
  then show ?thesis by (rule parse_loop_returns)
qed

lemma is_field_origin_eq: "is_field_origin = (\<lambda>cmd. node_type cmd = Some ''FIELD_ORIGIN'')"
  by (rule ext) (simp add: is_field_origin_def)

lemma calculateLabelWidth_within_limit:
  assumes "length (filter is_field_origin cmds) \<le> maxArguments"
  shows "\<exists>width. calculateLabelWidth maxArguments cmds = Ok width"
  using assms
  by (auto simp: calculateLabelWidth_def Let_def is_field_origin_eq split: option.splits)

lemma calculateLabelWidth_beyond_limit:
  assumes "maxArguments < length (filter is_field_origin cmds)"
  shows "calculateLabelWidth maxArguments cmds = Throw RangeError"
  using assms
  by (auto simp: calculateLabelWidth_def Let_def is_field_origin_eq)

section \<open>Properties\<close>

text \<open>
  C1. The claim is that \<open>parse(s)\<close> returns a document for every source text and that no
  exception ever reaches the caller. On the code the loop of \<open>parse\<close> does return for
  every source text, with some command list \<open>cmds\<close>; but \<open>parse\<close> then calls
  \<open>calculateLabelWidth\<close> outside the \<open>try\<close> block, and \<open>Math.max(...)\<close> there gets one
  argument for each field-origin node. When the command list holds more field-origin
  nodes than the engine accepts arguments in a call, \<open>parse\<close> throws a \<open>RangeError\<close> to its
  caller; it returns a document with these commands exactly when it holds no more than
  that.
\<close>

theorem parse_throws_RangeError_beyond_argument_limit:
  "\<exists>cmds p'. parse_loop [] (parser_at_start s) = (Ok cmds, p')
      \<and> (maxArguments < length (filter is_field_origin cmds) \<longrightarrow>
           parse maxArguments s p = (Throw RangeError, p'))
      \<and> (length (filter is_field_origin cmds) \<le> maxArguments \<longrightarrow>
           (\<exists>d. parse maxArguments s p = (Ok d, p') \<and> commands d = cmds))"
proof -
  obtain cmds p' where l: "parse_loop [] (parser_at_start s) = (Ok cmds, p')"
    using parse_loop_from_start by blast
  have "parse maxArguments s p = (Throw RangeError, p')"
    if "maxArguments < length (filter is_field_origin cmds)"
    using l calculateLabelWidth_beyond_limit [OF that] by (simp add: parse_eq)
  moreover have "\<exists>d. parse maxArguments s p = (Ok d, p') \<and> commands d = cmds"
    if "length (filter is_field_origin cmds) \<le> maxArguments"
    using l calculateLabelWidth_within_limit [OF that] by (auto simp: parse_eq)
  ultimately show ?thesis using l by blast
qed

text \<open>
  The theorem at a source with three \<open>FO\<close> commands: an engine that accepts two arguments
  in a call throws, an engine that accepts three returns the document.
\<close>

theorem parse_throws_RangeError_beyond_argument_limit_witness:
  "map is_field_origin
     (case fst (parse_loop [] (parser_at_start ''^FO 1,1^FO 2,2^FO 3,3'')) of
        Ok cmds \<Rightarrow> cmds | Throw e \<Rightarrow> []) = [True, True, True]
   \<and> fst (parse 2 ''^FO 1,1^FO 2,2^FO 3,3'' new_ZplParser) = Throw RangeError
   \<and> map_option (labelWidth \<circ> metadata) (parse_document 3 ''^FO 1,1^FO 2,2^FO 3,3'') =
       Some (Some (Finite 103))"
proof -
  let ?s = "''^FO 1,1^FO 2,2^FO 3,3''"
  have n: "map is_field_origin
     (case fst (parse_loop [] (parser_at_start ?s)) of Ok cmds \<Rightarrow> cmds | Throw e \<Rightarrow> [])
       = [True, True, True]"
    by code_simp
  obtain cmds p' where l: "parse_loop [] (parser_at_start ?s) = (Ok cmds, p')"
    and t: "2 < length (filter is_field_origin cmds) \<longrightarrow>
           parse 2 ?s new_ZplParser = (Throw RangeError, p')"
    using parse_throws_RangeError_beyond_argument_limit [of ?s 2 new_ZplParser] by blast
  from n l have "map is_field_origin cmds = [True, True, True]" by simp
  then have "length (filter is_field_origin cmds) = 3"
    by (auto simp: map_eq_Cons_conv)
  with t have r: "fst (parse 2 ?s new_ZplParser) = Throw RangeError" by simp
  have d: "map_option (labelWidth \<circ> metadata) (parse_document 3 ?s) = Some (Some (Finite 103))"
    by code_simp
  show ?thesis by (rule conjI [OF n conjI [OF r d]])
qed

text \<open>
  What does hold of the loop of \<open>parse\<close>, for every source text \<open>s\<close>. The loop returns, and
  the lexical errors of the tokenizer come first in the error list that it leaves. Every
  iteration, run in any state \<open>q\<close> whose cursor is not at the end-of-stream token, moves
  the cursor strictly forward and leaves the token list alone. In a state whose cursor
  lies inside a token list that ends with the end-of-stream token, as it does when the
  loop starts, an iteration in which \<open>parseCommand\<close> throws runs \<open>synchronize\<close>, which
  returns, and the iteration ends with the command list unchanged and the cursor at the
  end of the stream, at a command marker or behind a newline. A \<open>ParseError\<close> object that
  \<open>parseCommand\<close> throws has been recorded in the error list.
\<close>

lemma parse_loop_returns_advances_and_recovers:
  "(\<exists>cmds p'. parse_loop [] (parser_at_start s) = (Ok cmds, p')
       \<and> prefix (snd (tokenize s)) (errors p'))
   \<and> cursor_ok (parser_at_start s)
   \<and> (\<forall>q cmds. isAtEnd q = (Ok False, q) \<longrightarrow>
          current q < current (snd (parse_step cmds q))
          \<and> tokens (snd (parse_step cmds q)) = tokens q)
   \<and> (\<forall>q cmds. cursor_ok q \<and> isAtEnd q = (Ok False, q) \<longrightarrow>
          (\<exists>cmds' q'. parse_step cmds q = (Ok cmds', q') \<and> cursor_ok q'))
   \<and> (\<forall>q cmds e q1. cursor_ok q \<and> isAtEnd q = (Ok False, q)
          \<and> parseCommand q = (Throw e, q1) \<longrightarrow>
          (\<exists>q'. synchronize q1 = (Ok (), q') \<and> parse_step cmds q = (Ok cmds, q')
                \<and> at_sync_point q' \<and> cursor_ok q'))
   \<and> (\<forall>q e q'. parseCommand q = (Throw (Thrown e), q') \<longrightarrow> e \<in> set (errors q'))"
proof -
  have returns: "\<exists>cmds p'. parse_loop [] (parser_at_start s) = (Ok cmds, p')
       \<and> prefix (snd (tokenize s)) (errors p')"
    using parse_loop_from_start [of s] by (auto simp: steps_def parser_at_start_def)
  have start: "cursor_ok (parser_at_start s)"
    using tokenize_last_EOF [of s] by (simp add: cursor_ok_def parser_at_start_def)
  have advances: "\<forall>q cmds. isAtEnd q = (Ok False, q) \<longrightarrow>
          current q < current (snd (parse_step cmds q))
          \<and> tokens (snd (parse_step cmds q)) = tokens q"
  proof (intro allI impI)
    fix q cmds
    assume e: "isAtEnd q = (Ok False, q)"
    have "steps q (snd (parse_step cmds q))"
      using forward_parse_step by (rule forwardD)
    with parse_step_advances [OF e, of cmds]
    show "current q < current (snd (parse_step cmds q))
          \<and> tokens (snd (parse_step cmds q)) = tokens q"
      by (simp add: steps_def)
  qed
  have returns_step: "\<forall>q cmds. cursor_ok q \<and> isAtEnd q = (Ok False, q) \<longrightarrow>
          (\<exists>cmds' q'. parse_step cmds q = (Ok cmds', q') \<and> cursor_ok q')"
    using parse_step_returns by blast
  have recovers: "\<forall>q cmds e q1. cursor_ok q \<and> isAtEnd q = (Ok False, q)
          \<and> parseCommand q = (Throw e, q1) \<longrightarrow>
          (\<exists>q'. synchronize q1 = (Ok (), q') \<and> parse_step cmds q = (Ok cmds, q')
                \<and> at_sync_point q' \<and> cursor_ok q')"
    using parse_step_recovers by blast
  have recorded: "\<forall>q e q'. parseCommand q = (Throw (Thrown e), q') \<longrightarrow> e \<in> set (errors q')"
    using parseCommand_thrown by blast
  show ?thesis
    by (rule conjI [OF returns conjI [OF start conjI [OF advances conjI [OF returns_step
          conjI [OF recovers recorded]]]]])
qed

text \<open>
  C2. The claim is that \<open>^FDHello World^FS\<close> yields a field-data node with content
  \<open>Hello World\<close> and \<open>stopCommand = true\<close>, and \<open>^FDHello World\<close> the same content with
  \<open>stopCommand = false\<close>. On the code neither input yields a field-data node: the tokenizer
  reads the command code as the whole run of upper-case letters and digits after the
  marker, here \<open>FDH\<close>, and splits the rest at the blank into the parameters \<open>ello\<close> and
  \<open>World\<close>; the parser then builds a generic node for \<open>FDH\<close>, and a second generic node
  for \<open>FS\<close>. The engine's bound \<open>maxArguments\<close> is arbitrary:
  none of these documents has a field-origin node.
\<close>

theorem field_data_hello_world_is_generic:
  "map_option commands (parse_document maxArguments ''^FDHello World^FS'') =
     Some [GenericCommand
             \<lparr>cmd_type = ''GENERIC_COMMAND'', cmd_command = ''FDH'', cmd_raw = ''^FDH'',
               cmd_position = \<lparr>line = 1, column = 1, offset = 0\<rparr>,
               cmd_parameters = ParamArray [''ello'', ''World'']\<rparr>,
           GenericCommand
             \<lparr>cmd_type = ''GENERIC_COMMAND'', cmd_command = ''FS'', cmd_raw = ''^FS'',
               cmd_position = \<lparr>line = 1, column = 15, offset = 14\<rparr>,
               cmd_parameters = ParamArray []\<rparr>]
   \<and> map_option commands (parse_document maxArguments ''^FDHello World'') =
     Some [GenericCommand
             \<lparr>cmd_type = ''GENERIC_COMMAND'', cmd_command = ''FDH'', cmd_raw = ''^FDH'',
               cmd_position = \<lparr>line = 1, column = 1, offset = 0\<rparr>,
               cmd_parameters = ParamArray [''ello'', ''World'']\<rparr>]"
  by code_simp

text \<open>
  Where the data is set off from the code, as in \<open>^FD,Hello World^FS\<close>, the rule of \<open>FD\<close>
  runs, but the content is the first blank-separated word only; the second word is a
  parameter token of its own, so the lookahead does not see \<open>^FS\<close>, and \<open>FS\<close> becomes a
  generic node.
\<close>

lemma field_data_content_ends_at_blank:
  "map_option commands (parse_document maxArguments ''^FD,Hello World^FS'') =
     Some [FieldDataCommand
             \<lparr>cmd_type = ''FIELD_DATA'', cmd_command = ''FD'', cmd_raw = ''^FD'',
               cmd_position = \<lparr>line = 1, column = 1, offset = 0\<rparr>,
               cmd_parameters = ParamObject [(''content'', ''Hello'')]\<rparr> ''Hello'' False,
           GenericCommand
             \<lparr>cmd_type = ''GENERIC_COMMAND'', cmd_command = ''FS'', cmd_raw = ''^FS'',
               cmd_position = \<lparr>line = 1, column = 16, offset = 15\<rparr>,
               cmd_parameters = ParamArray []\<rparr>]"
  by code_simp


text \<open>
  C3. The claim is that Scenario A gives 0 errors and exactly 5 nodes, the fourth being a
  field-data node with content \<open>Hello World\<close>. On the code the document has 0 errors but
  6 nodes, with the codes \<open>XA, FO50, ADN, FDH, FS, XZ\<close>: only the first and the last are
  of a known kind, and the fourth is the generic node of \<open>FDH\<close>. The engine's bound \<open>maxArguments\<close> is arbitrary:
  none of these documents has a field-origin node.
\<close>

theorem scenario_A_yields_six_nodes:
  "map_option node_types
     (parse_document maxArguments ''^XA\<newline>^FO50,50\<newline>^ADN,36,20\<newline>^FDHello World^FS\<newline>^XZ'') =
     Some [Some ''LABEL_START'', Some ''GENERIC_COMMAND'', Some ''GENERIC_COMMAND'',
           Some ''GENERIC_COMMAND'', Some ''GENERIC_COMMAND'', Some ''LABEL_END'']
   \<and> map_option command_codes
     (parse_document maxArguments ''^XA\<newline>^FO50,50\<newline>^ADN,36,20\<newline>^FDHello World^FS\<newline>^XZ'') =
     Some [Some ''XA'', Some ''FO50'', Some ''ADN'', Some ''FDH'', Some ''FS'', Some ''XZ'']
   \<and> map_option (hd \<circ> drop 3 \<circ> commands)
     (parse_document maxArguments ''^XA\<newline>^FO50,50\<newline>^ADN,36,20\<newline>^FDHello World^FS\<newline>^XZ'') =
     Some (GenericCommand
             \<lparr>cmd_type = ''GENERIC_COMMAND'', cmd_command = ''FDH'', cmd_raw = ''^FDH'',
               cmd_position = \<lparr>line = 4, column = 1, offset = 24\<rparr>,
               cmd_parameters = ParamArray [''ello'', ''World'']\<rparr>)
   \<and> map_option (md_errors \<circ> metadata)
     (parse_document maxArguments ''^XA\<newline>^FO50,50\<newline>^ADN,36,20\<newline>^FDHello World^FS\<newline>^XZ'') =
     Some []"
  by code_simp


text \<open>
  C4. The claim is that Scenario B gives exactly one barcode node with height 100 and data
  \<open>123456789\<close>. On the code the document has no barcode node: the line \<open>^BCN,100,Y,N,N\<close>
  is read as the unknown command \<open>BCN\<close> and \<open>^FD123456789\<close> as the unknown command
  \<open>FD123456789\<close>, and all four inner nodes are generic. The engine's bound \<open>maxArguments\<close> is arbitrary:
  none of these documents has a field-origin node.
\<close>

theorem scenario_B_has_no_barcode_node:
  "map_option (filter is_barcode \<circ> commands)
     (parse_document maxArguments ''^XA\<newline>^FO100,100\<newline>^BCN,100,Y,N,N\<newline>^FD123456789^FS\<newline>^XZ'') =
     Some []
   \<and> map_option command_codes
     (parse_document maxArguments ''^XA\<newline>^FO100,100\<newline>^BCN,100,Y,N,N\<newline>^FD123456789^FS\<newline>^XZ'') =
     Some [Some ''XA'', Some ''FO100'', Some ''BCN'', Some ''FD123456789'', Some ''FS'',
           Some ''XZ'']"
  by code_simp

text \<open>
  Where the parameters are set off from the code and \<open>^FD\<close> stands on the next line, as in
  Scenario B, the rule of \<open>BC\<close> runs, but its lookahead meets the newline token: the data
  of the barcode node is empty and \<open>FD\<close> is a node of its own.
\<close>

lemma barcode_lookahead_ends_at_newline:
  "map_option commands (parse_document maxArguments ''^BC,N,100,Y,N,N\<newline>^FD,123456789^FS'') =
     Some [BarcodeCommand
             \<lparr>cmd_type = ''BARCODE'', cmd_command = ''BC'', cmd_raw = ''^BC'',
               cmd_position = \<lparr>line = 1, column = 1, offset = 0\<rparr>,
               cmd_parameters = ParamArray [''N'', ''100'', ''Y'', ''N'', ''N'']\<rparr>
             ''N'' (Finite 100) True False (Some ''N'') '''',
           FieldDataCommand
             \<lparr>cmd_type = ''FIELD_DATA'', cmd_command = ''FD'', cmd_raw = ''^FD'',
               cmd_position = \<lparr>line = 2, column = 1, offset = 16\<rparr>,
               cmd_parameters = ParamObject [(''content'', ''123456789'')]\<rparr>
             ''123456789'' True]"
  by code_simp


text \<open>
  C5. The claim is that Scenario C records at least one error and gives exactly 4 nodes,
  the second a field-origin node with \<open>y = 0\<close>. On the code no error is recorded and the
  document has 5 nodes: \<open>^FO50\<close> is read as the unknown command \<open>FO50\<close> without
  parameters, so the rule of \<open>FO\<close> and its check of the parameter count never run. The engine's bound \<open>maxArguments\<close> is arbitrary:
  none of these documents has a field-origin node.
\<close>

theorem scenario_C_records_no_error:
  "map_option (md_errors \<circ> metadata) (parse_document maxArguments ''^XA\<newline>^FO50\<newline>^FDTest^FS\<newline>^XZ'') =
     Some []
   \<and> map_option node_types (parse_document maxArguments ''^XA\<newline>^FO50\<newline>^FDTest^FS\<newline>^XZ'') =
     Some [Some ''LABEL_START'', Some ''GENERIC_COMMAND'', Some ''GENERIC_COMMAND'',
           Some ''GENERIC_COMMAND'', Some ''LABEL_END'']
   \<and> map_option command_codes (parse_document maxArguments ''^XA\<newline>^FO50\<newline>^FDTest^FS\<newline>^XZ'') =
     Some [Some ''XA'', Some ''FO50'', Some ''FDT'', Some ''FS'', Some ''XZ'']"
  by code_simp


text \<open>
  C6 (as amended). Parsing \<open>^LH\<close> alone yields a label-home node with \<open>x = 0\<close> and
  \<open>y = 0\<close> and records one structural error. In general, let \<open>st\<close> and \<open>ct\<close> be the marker
  and the code token at the cursor, let the value of the code token be exactly \<open>LH\<close> or
  \<open>FO\<close>, and let the command carry the parameter tokens \<open>ps\<close>, fewer than two. Then
  \<open>parseCommand\<close> returns the node of that kind and records the error
  \<open><code> command requires x and y parameters\<close> at the position of the marker. The second
  coordinate, which is missing, is \<open>0\<close>. The first coordinate is \<open>0\<close> when it is missing or
  when its text does not begin with a number (a decimal digit after white space and at
  most one sign). A text that begins with a number is not defaulted, whatever follows the
  digits: the coordinate is the number that \<open>parseInt\<close> reads from its beginning, which is
  never \<open>NaN\<close>; so \<open>5x\<close> gives 5. (A command whose first parameter follows the code
  directly, such as \<open>^FO50\<close> or \<open>^LH5\<close>, has the code token \<open>FO50\<close> or \<open>LH5\<close> and is not
  the subject of this statement.)
\<close>

theorem missing_coordinates_default_to_zero:
  "map_option commands (parse_document maxArguments ''^LH'') =
     Some [LabelHomeCommand
             \<lparr>cmd_type = ''LABEL_HOME'', cmd_command = ''LH'', cmd_raw = ''^LH'',
               cmd_position = \<lparr>line = 1, column = 1, offset = 0\<rparr>,
               cmd_parameters = ParamArray []\<rparr> (Finite 0) (Finite 0)]
   \<and> map_option (md_errors \<circ> metadata) (parse_document maxArguments ''^LH'') =
     Some [\<lparr>err_message = ''LH command requires x and y parameters'',
             err_position = \<lparr>line = 1, column = 1, offset = 0\<rparr>,
             err_severity = ''ERROR'', err_code = ''PARSER_ERROR''\<rparr>]
   \<and> (\<forall>p st ct ps p1.
        token_at p (current p) = Some st \<and> tok_type st = COMMAND_START
        \<and> token_at p (current p + 1) = Some ct \<and> tok_type ct = COMMAND_CODE
        \<and> (tok_value ct = ''LH'' \<or> tok_value ct = ''FO'')
        \<and> parseParameters (p\<lparr>current := current p + 2\<rparr>) = (Ok ps, p1)
        \<and> length ps < 2
        \<longrightarrow>
        parseCommand p =
          (Ok (Some
             ((if tok_value ct = ''LH''
               then LabelHomeCommand
                      \<lparr>cmd_type = ''LABEL_HOME'', cmd_command = ''LH'', cmd_raw = ''^LH'',
                        cmd_position = tok_position st, cmd_parameters = ParamArray ps\<rparr>
               else FieldOriginCommand
                      \<lparr>cmd_type = ''FIELD_ORIGIN'', cmd_command = ''FO'', cmd_raw = ''^FO'',
                        cmd_position = tok_position st, cmd_parameters = ParamArray ps\<rparr>)
              (case ps of
                 [] \<Rightarrow> Finite 0
               | v # _ \<Rightarrow> if begins_with_number v then parseInt (Some v) else Finite 0)
              (Finite 0))),
           p1\<lparr>errors := errors p1 @
                [\<lparr>err_message = tok_value ct @ '' command requires x and y parameters'',
                  err_position = tok_position st, err_severity = ''ERROR'',
                  err_code = ''PARSER_ERROR''\<rparr>]\<rparr>))
   \<and> (\<forall>v. begins_with_number v \<longrightarrow> parseInt (Some v) \<noteq> NaN)"
proof -
  have lh: "map_option commands (parse_document maxArguments ''^LH'') =
     Some [LabelHomeCommand
             \<lparr>cmd_type = ''LABEL_HOME'', cmd_command = ''LH'', cmd_raw = ''^LH'',
               cmd_position = \<lparr>line = 1, column = 1, offset = 0\<rparr>,
               cmd_parameters = ParamArray []\<rparr> (Finite 0) (Finite 0)]"
    by code_simp
  have lh_error: "map_option (md_errors \<circ> metadata) (parse_document maxArguments ''^LH'') =
     Some [\<lparr>err_message = ''LH command requires x and y parameters'',
             err_position = \<lparr>line = 1, column = 1, offset = 0\<rparr>,
             err_severity = ''ERROR'', err_code = ''PARSER_ERROR''\<rparr>]"
    by code_simp
  have general: "\<forall>p st ct ps p1.
        token_at p (current p) = Some st \<and> tok_type st = COMMAND_START
        \<and> token_at p (current p + 1) = Some ct \<and> tok_type ct = COMMAND_CODE
        \<and> (tok_value ct = ''LH'' \<or> tok_value ct = ''FO'')
        \<and> parseParameters (p\<lparr>current := current p + 2\<rparr>) = (Ok ps, p1)
        \<and> length ps < 2
        \<longrightarrow>
        parseCommand p =
          (Ok (Some
             ((if tok_value ct = ''LH''
               then LabelHomeCommand
                      \<lparr>cmd_type = ''LABEL_HOME'', cmd_command = ''LH'', cmd_raw = ''^LH'',
                        cmd_position = tok_position st, cmd_parameters = ParamArray ps\<rparr>
               else FieldOriginCommand
                      \<lparr>cmd_type = ''FIELD_ORIGIN'', cmd_command = ''FO'', cmd_raw = ''^FO'',
                        cmd_position = tok_position st, cmd_parameters = ParamArray ps\<rparr>)
              (case ps of
                 [] \<Rightarrow> Finite 0
               | v # _ \<Rightarrow> if begins_with_number v then parseInt (Some v) else Finite 0)
              (Finite 0))),
           p1\<lparr>errors := errors p1 @
                [\<lparr>err_message = tok_value ct @ '' command requires x and y parameters'',
                  err_position = tok_position st, err_severity = ''ERROR'',
                  err_code = ''PARSER_ERROR''\<rparr>]\<rparr>)"
  proof (intro allI impI)
    fix p st ct ps p1
    assume h: "token_at p (current p) = Some st \<and> tok_type st = COMMAND_START
        \<and> token_at p (current p + 1) = Some ct \<and> tok_type ct = COMMAND_CODE
        \<and> (tok_value ct = ''LH'' \<or> tok_value ct = ''FO'')
        \<and> parseParameters (p\<lparr>current := current p + 2\<rparr>) = (Ok ps, p1)
        \<and> length ps < 2"
    then have pc: "parseCommand p = someP (dispatch (Some st) ct) (p\<lparr>current := current p + 2\<rparr>)"
      by (intro parseCommand_at_command) simp_all
    have y: "parseNumberParameter (param_at ps (Suc 0)) (Finite 0) = Finite 0"
      using h by (simp add: param_at_def parseNumberParameter_def parseInt_def isNaN_def)
    have x: "parseNumberParameter (param_at ps 0) (Finite 0) =
        (case ps of [] \<Rightarrow> Finite 0
         | v # _ \<Rightarrow> if begins_with_number v then parseInt (Some v) else Finite 0)"
    proof (cases ps)
      case Nil
      then show ?thesis
        by (simp add: param_at_def parseNumberParameter_def parseInt_def isNaN_def)
    next
      case (Cons v vs)
      then show ?thesis
        using parseInt_NaN_iff [of v]
        by (auto simp: param_at_def parseNumberParameter_def Let_def isNaN_def)
    qed
    from h consider "tok_value ct = ''LH''" | "tok_value ct = ''FO''" by blast
    then show "parseCommand p =
          (Ok (Some
             ((if tok_value ct = ''LH''
               then LabelHomeCommand
                      \<lparr>cmd_type = ''LABEL_HOME'', cmd_command = ''LH'', cmd_raw = ''^LH'',
                        cmd_position = tok_position st, cmd_parameters = ParamArray ps\<rparr>
               else FieldOriginCommand
                      \<lparr>cmd_type = ''FIELD_ORIGIN'', cmd_command = ''FO'', cmd_raw = ''^FO'',
                        cmd_position = tok_position st, cmd_parameters = ParamArray ps\<rparr>)
              (case ps of
                 [] \<Rightarrow> Finite 0
               | v # _ \<Rightarrow> if begins_with_number v then parseInt (Some v) else Finite 0)
              (Finite 0))),
           p1\<lparr>errors := errors p1 @
                [\<lparr>err_message = tok_value ct @ '' command requires x and y parameters'',
                  err_position = tok_position st, err_severity = ''ERROR'',
                  err_code = ''PARSER_ERROR''\<rparr>]\<rparr>)"
    proof cases
      case 1
      with h show ?thesis
        unfolding pc
        by (simp add: someP_def dispatch_def parseLabelHome_def bindP_def returnP_def
            defined_def addError_def Let_def x y)
    next
      case 2
      with h show ?thesis
        unfolding pc
        by (simp add: someP_def dispatch_def parseFieldOrigin_def bindP_def returnP_def
            defined_def addError_def Let_def x y)
    qed
  qed
  have number: "\<forall>v. begins_with_number v \<longrightarrow> parseInt (Some v) \<noteq> NaN"
    using parseInt_NaN_iff by blast
  show ?thesis
    by (rule conjI [OF lh conjI [OF lh_error conjI [OF general number]]])
qed

text \<open>
  The general part at the command of \<open>^FO 5x\<close>, which carries the one parameter \<open>5x\<close>: the
  text begins with a number, \<open>x\<close> is the number 5 that \<open>parseInt\<close> reads from it, and \<open>y\<close>
  is 0; and at the command of \<open>^LH x\<close>, whose parameter does not begin with a number, so
  that both coordinates are 0.
\<close>

theorem missing_coordinates_default_to_zero_witness:
  "token_at (parser_at_start ''^FO 5x'') (current (parser_at_start ''^FO 5x'')) =
     Some \<lparr>tok_type = COMMAND_START, tok_value = ''^'',
            tok_position = \<lparr>line = 1, column = 1, offset = 0\<rparr>, tok_raw = ''^''\<rparr>
   \<and> token_at (parser_at_start ''^FO 5x'') (current (parser_at_start ''^FO 5x'') + 1) =
     Some \<lparr>tok_type = COMMAND_CODE, tok_value = ''FO'',
            tok_position = \<lparr>line = 1, column = 2, offset = 0\<rparr>, tok_raw = ''FO''\<rparr>
   \<and> parseParameters ((parser_at_start ''^FO 5x'')\<lparr>current := 2\<rparr>) =
       (Ok [''5x''], (parser_at_start ''^FO 5x'')\<lparr>current := 3\<rparr>)
   \<and> begins_with_number ''5x''
   \<and> parseInt (Some ''5x'') = Finite 5
   \<and> parseCommand (parser_at_start ''^FO 5x'') =
       (Ok (Some (FieldOriginCommand
          \<lparr>cmd_type = ''FIELD_ORIGIN'', cmd_command = ''FO'', cmd_raw = ''^FO'',
            cmd_position = \<lparr>line = 1, column = 1, offset = 0\<rparr>,
            cmd_parameters = ParamArray [''5x'']\<rparr> (Finite 5) (Finite 0))),
        (parser_at_start ''^FO 5x'')
          \<lparr>current := 3,
            errors := [\<lparr>err_message = ''FO command requires x and y parameters'',
                        err_position = \<lparr>line = 1, column = 1, offset = 0\<rparr>,
                        err_severity = ''ERROR'', err_code = ''PARSER_ERROR''\<rparr>]\<rparr>)
   \<and> \<not> begins_with_number ''x''
   \<and> parseCommand (parser_at_start ''^LH x'') =
       (Ok (Some (LabelHomeCommand
          \<lparr>cmd_type = ''LABEL_HOME'', cmd_command = ''LH'', cmd_raw = ''^LH'',
            cmd_position = \<lparr>line = 1, column = 1, offset = 0\<rparr>,
            cmd_parameters = ParamArray [''x'']\<rparr> (Finite 0) (Finite 0))),
        (parser_at_start ''^LH x'')
          \<lparr>current := 3,
            errors := [\<lparr>err_message = ''LH command requires x and y parameters'',
                        err_position = \<lparr>line = 1, column = 1, offset = 0\<rparr>,
                        err_severity = ''ERROR'', err_code = ''PARSER_ERROR''\<rparr>]\<rparr>)"
proof -
  let ?st = "\<lparr>tok_type = COMMAND_START, tok_value = ''^'',
            tok_position = \<lparr>line = 1, column = 1, offset = 0\<rparr>, tok_raw = ''^''\<rparr>"
  let ?fo = "\<lparr>tok_type = COMMAND_CODE, tok_value = ''FO'',
            tok_position = \<lparr>line = 1, column = 2, offset = 0\<rparr>, tok_raw = ''FO''\<rparr>"
  let ?lh = "\<lparr>tok_type = COMMAND_CODE, tok_value = ''LH'',
            tok_position = \<lparr>line = 1, column = 2, offset = 0\<rparr>, tok_raw = ''LH''\<rparr>"
  let ?p = "parser_at_start ''^FO 5x''"
  let ?q = "parser_at_start ''^LH x''"
  have c: "current ?p = 0" "current ?q = 0" "errors ?p = []" "errors ?q = []"
    by code_simp+
  have p1: "token_at ?p (current ?p) = Some ?st" by code_simp
  have p2: "token_at ?p (current ?p + 1) = Some ?fo" by code_simp
  have p3: "parseParameters (?p\<lparr>current := 2\<rparr>) = (Ok [''5x''], ?p\<lparr>current := 3\<rparr>)"
    by code_simp
  have q1: "token_at ?q (current ?q) = Some ?st" by code_simp
  have q2: "token_at ?q (current ?q + 1) = Some ?lh" by code_simp
  have q3: "parseParameters (?q\<lparr>current := 2\<rparr>) = (Ok [''x''], ?q\<lparr>current := 3\<rparr>)"
    by code_simp
  have v5: "parseInt (Some ''5x'') = Finite 5" by code_simp
  have vx: "parseInt (Some ''x'') = NaN" by code_simp
  have b5: "begins_with_number ''5x''"
    using parseInt_NaN_iff [of "''5x''"] v5 by simp
  have bx: "\<not> begins_with_number ''x''"
    using parseInt_NaN_iff [of "''x''"] vx by simp
  note general = missing_coordinates_default_to_zero [of 0, THEN conjunct2, THEN conjunct2,
      THEN conjunct1, rule_format]
  have fo: "parseCommand ?p =
       (Ok (Some (FieldOriginCommand
          \<lparr>cmd_type = ''FIELD_ORIGIN'', cmd_command = ''FO'', cmd_raw = ''^FO'',
            cmd_position = \<lparr>line = 1, column = 1, offset = 0\<rparr>,
            cmd_parameters = ParamArray [''5x'']\<rparr> (Finite 5) (Finite 0))),
        ?p\<lparr>current := 3,
            errors := [\<lparr>err_message = ''FO command requires x and y parameters'',
                        err_position = \<lparr>line = 1, column = 1, offset = 0\<rparr>,
                        err_severity = ''ERROR'', err_code = ''PARSER_ERROR''\<rparr>]\<rparr>)"
    using general [of ?p ?st ?fo "[''5x'']" "?p\<lparr>current := 3\<rparr>"] p1 p2 p3 c v5 b5
    by (simp del: add_2_eq_Suc' add_2_eq_Suc)
  have lh: "parseCommand ?q =
       (Ok (Some (LabelHomeCommand
          \<lparr>cmd_type = ''LABEL_HOME'', cmd_command = ''LH'', cmd_raw = ''^LH'',
            cmd_position = \<lparr>line = 1, column = 1, offset = 0\<rparr>,
            cmd_parameters = ParamArray [''x'']\<rparr> (Finite 0) (Finite 0))),
        ?q\<lparr>current := 3,
            errors := [\<lparr>err_message = ''LH command requires x and y parameters'',
                        err_position = \<lparr>line = 1, column = 1, offset = 0\<rparr>,
                        err_severity = ''ERROR'', err_code = ''PARSER_ERROR''\<rparr>]\<rparr>)"
    using general [of ?q ?st ?lh "[''x'']" "?q\<lparr>current := 3\<rparr>"] q1 q2 q3 c bx
    by (simp del: add_2_eq_Suc' add_2_eq_Suc)
  show ?thesis
    using p1 p2 p3 c b5 v5 fo bx lh by (simp del: add_2_eq_Suc' add_2_eq_Suc)
qed

text \<open>
  C6 as stated fails, in two ways. In \<open>^LH,5x\<close> the first coordinate is the text \<open>5x\<close>,
  which is not a decimal integer, and it is not defaulted to 0: the node has \<open>x = 5\<close>. And
  \<open>^FO50\<close>, an \<open>FO\<close> command with one parameter, records no error and yields no
  field-origin node: its code token is \<open>FO50\<close> and its node is generic (the slip of the
  tokenizer that C5 is about). Both hold for every bound \<open>maxArguments\<close> of the engine; the
  counterexample takes 65535.
\<close>

lemma label_home_5x:
  "map_option commands (parse_document maxArguments ''^LH,5x'') =
     Some [LabelHomeCommand
             \<lparr>cmd_type = ''LABEL_HOME'', cmd_command = ''LH'', cmd_raw = ''^LH'',
               cmd_position = \<lparr>line = 1, column = 1, offset = 0\<rparr>,
               cmd_parameters = ParamArray [''5x'']\<rparr> (Finite 5) (Finite 0)]"
  by code_simp

text \<open>
  The commands \<open>^FO50\<close> and \<open>^LH5\<close>, in which the first parameter follows the code
  directly: the code tokens are \<open>FO50\<close> and \<open>LH5\<close>, the nodes are generic, and no error is
  recorded.
\<close>

lemma parameter_joined_to_code:
  "map_option command_codes (parse_document maxArguments ''^FO50'') = Some [Some ''FO50'']
   \<and> map_option node_types (parse_document maxArguments ''^FO50'') =
       Some [Some ''GENERIC_COMMAND'']
   \<and> map_option (md_errors \<circ> metadata) (parse_document maxArguments ''^FO50'') = Some []
   \<and> map_option command_codes (parse_document maxArguments ''^LH5'') = Some [Some ''LH5'']
   \<and> map_option node_types (parse_document maxArguments ''^LH5'') =
       Some [Some ''GENERIC_COMMAND'']
   \<and> map_option (md_errors \<circ> metadata) (parse_document maxArguments ''^LH5'') = Some []"
  by code_simp

theorem non_numeric_coordinate_kept_counterexample:
  "\<not> is_decimal_integer ''5x''
   \<and> map_option commands (parse_document 65535 ''^LH,5x'') =
     Some [LabelHomeCommand
             \<lparr>cmd_type = ''LABEL_HOME'', cmd_command = ''LH'', cmd_raw = ''^LH'',
               cmd_position = \<lparr>line = 1, column = 1, offset = 0\<rparr>,
               cmd_parameters = ParamArray [''5x'']\<rparr> (Finite 5) (Finite 0)]
   \<and> map_option node_types (parse_document 65535 ''^FO50'') = Some [Some ''GENERIC_COMMAND'']
   \<and> map_option (md_errors \<circ> metadata) (parse_document 65535 ''^FO50'') = Some []"
proof -
  have "\<not> is_decimal_integer ''5x''" by code_simp
  with label_home_5x [of 65535] parameter_joined_to_code [of 65535] show ?thesis by blast
qed

text \<open>
  C7 (as amended). A command whose code is exactly \<open>FR\<close>, \<open>CF\<close> or \<open>GF\<close> does not go through
  the generic-command fallback: \<open>parseCommand\<close> dispatches it to a rule of its own, which
  reads no parameter token and records no warning and no error, and whose node is the empty
  object, without any of the base fields. The generic-command fallback is what every code
  outside the fourteen codes of the \<open>switch\<close> gets: the warning
  \<open>Unsupported command: <code>\<close> at the position of the code token is recorded, the
  parameters are read, and the node is a generic node with the five base fields.
  Here \<open>st\<close> and \<open>ct\<close> are the marker and the code token at the cursor.
\<close>

theorem stub_codes_bypass_generic_fallback:
  assumes "token_at p (current p) = Some st" and "tok_type st = COMMAND_START"
    and "token_at p (current p + 1) = Some ct" and "tok_type ct = COMMAND_CODE"
  shows "(tok_value ct \<in> {''FR'', ''CF'', ''GF''} \<longrightarrow>
            parseCommand p = (Ok (Some EmptyObject), p\<lparr>current := current p + 2\<rparr>))
       \<and> base_fields EmptyObject = None
       \<and> (tok_value ct \<notin> set dispatched_codes \<longrightarrow>
            parseCommand p =
              (case parseParameters
                      (p\<lparr>current := current p + 2,
                         warnings := warnings p @
                           [\<lparr>warn_message = ''Unsupported command: '' @ tok_value ct,
                             warn_position = tok_position ct, warn_suggestion = None\<rparr>]\<rparr>) of
                 (Ok parameters, p') \<Rightarrow>
                   (Ok (Some (GenericCommand
                      \<lparr>cmd_type = ''GENERIC_COMMAND'', cmd_command = tok_value ct,
                        cmd_raw = ''^'' @ tok_value ct, cmd_position = tok_position st,
                        cmd_parameters = ParamArray parameters\<rparr>)), p')
               | (Throw e, p') \<Rightarrow> (Throw e, p')))"
proof (intro conjI impI)
  assume "tok_value ct \<in> {''FR'', ''CF'', ''GF''}"
  then show "parseCommand p = (Ok (Some EmptyObject), p\<lparr>current := current p + 2\<rparr>)"
    unfolding parseCommand_at_command [OF assms]
    by (auto simp: someP_def dispatch_def bindP_def returnP_def parseFieldReverse_def
        parseChangeFont_def parseGraphicField_def)
next
  show "base_fields EmptyObject = None" by simp
next
  assume "tok_value ct \<notin> set dispatched_codes"
  then show "parseCommand p =
              (case parseParameters
                      (p\<lparr>current := current p + 2,
                         warnings := warnings p @
                           [\<lparr>warn_message = ''Unsupported command: '' @ tok_value ct,
                             warn_position = tok_position ct, warn_suggestion = None\<rparr>]\<rparr>) of
                 (Ok parameters, p') \<Rightarrow>
                   (Ok (Some (GenericCommand
                      \<lparr>cmd_type = ''GENERIC_COMMAND'', cmd_command = tok_value ct,
                        cmd_raw = ''^'' @ tok_value ct, cmd_position = tok_position st,
                        cmd_parameters = ParamArray parameters\<rparr>)), p')
               | (Throw e, p') \<Rightarrow> (Throw e, p'))"
    unfolding parseCommand_at_command [OF assms]
    by (simp add: someP_def dispatch_def dispatched_codes_def bindP_def returnP_def
        parseGenericCommand_def addWarning_def defined_def Let_def
        split: prod.splits result.splits)
qed

text \<open>
  The theorem at the first command of \<open>^GF,1\<close> (a stub code) and of \<open>^FS,1\<close> (a code
  outside the \<open>switch\<close>).
\<close>

theorem stub_codes_bypass_generic_fallback_witness:
  "token_at (parser_at_start ''^GF,1'') (current (parser_at_start ''^GF,1'')) =
     Some \<lparr>tok_type = COMMAND_START, tok_value = ''^'',
            tok_position = \<lparr>line = 1, column = 1, offset = 0\<rparr>, tok_raw = ''^''\<rparr>
   \<and> token_at (parser_at_start ''^GF,1'') (current (parser_at_start ''^GF,1'') + 1) =
     Some \<lparr>tok_type = COMMAND_CODE, tok_value = ''GF'',
            tok_position = \<lparr>line = 1, column = 2, offset = 0\<rparr>, tok_raw = ''GF''\<rparr>
   \<and> parseCommand (parser_at_start ''^GF,1'') =
       (Ok (Some EmptyObject), (parser_at_start ''^GF,1'')\<lparr>current := 2\<rparr>)
   \<and> ''FS'' \<notin> set dispatched_codes
   \<and> parseCommand (parser_at_start ''^FS,1'') =
       (Ok (Some (GenericCommand
          \<lparr>cmd_type = ''GENERIC_COMMAND'', cmd_command = ''FS'', cmd_raw = ''^FS'',
            cmd_position = \<lparr>line = 1, column = 1, offset = 0\<rparr>,
            cmd_parameters = ParamArray [''1'']\<rparr>)),
        (parser_at_start ''^FS,1'')
          \<lparr>current := 3,
            warnings := [\<lparr>warn_message = ''Unsupported command: FS'',
                          warn_position = \<lparr>line = 1, column = 2, offset = 0\<rparr>,
                          warn_suggestion = None\<rparr>]\<rparr>)"
proof -
  let ?st = "\<lparr>tok_type = COMMAND_START, tok_value = ''^'',
            tok_position = \<lparr>line = 1, column = 1, offset = 0\<rparr>, tok_raw = ''^''\<rparr>"
  let ?gf = "\<lparr>tok_type = COMMAND_CODE, tok_value = ''GF'',
            tok_position = \<lparr>line = 1, column = 2, offset = 0\<rparr>, tok_raw = ''GF''\<rparr>"
  let ?fs = "\<lparr>tok_type = COMMAND_CODE, tok_value = ''FS'',
            tok_position = \<lparr>line = 1, column = 2, offset = 0\<rparr>, tok_raw = ''FS''\<rparr>"
  let ?p = "parser_at_start ''^GF,1''"
  let ?q = "parser_at_start ''^FS,1''"
  have c: "current ?p = 0" "current ?q = 0" "warnings ?q = []"
    by (simp_all add: parser_at_start_def)
  have p1: "token_at ?p (current ?p) = Some ?st" by code_simp
  have p2: "token_at ?p (current ?p + 1) = Some ?gf" by code_simp
  have q1: "token_at ?q (current ?q) = Some ?st" by code_simp
  have q2: "token_at ?q (current ?q + 1) = Some ?fs" by code_simp
  have n: "''FS'' \<notin> set dispatched_codes" by (simp add: dispatched_codes_def)
  have r: "parseParameters
             (?q\<lparr>current := 2,
                  warnings := [\<lparr>warn_message = ''Unsupported command: FS'',
                          warn_position = \<lparr>line = 1, column = 2, offset = 0\<rparr>,
                          warn_suggestion = None\<rparr>]\<rparr>) =
           (Ok [''1''], ?q\<lparr>current := 3,
                  warnings := [\<lparr>warn_message = ''Unsupported command: FS'',
                          warn_position = \<lparr>line = 1, column = 2, offset = 0\<rparr>,
                          warn_suggestion = None\<rparr>]\<rparr>)"
    by code_simp
  have "parseCommand ?p = (Ok (Some EmptyObject), ?p\<lparr>current := 2\<rparr>)"
    using stub_codes_bypass_generic_fallback [of ?p ?st ?gf] p1 p2 c
    by (simp del: add_2_eq_Suc' add_2_eq_Suc)
  moreover have "parseCommand ?q =
       (Ok (Some (GenericCommand
          \<lparr>cmd_type = ''GENERIC_COMMAND'', cmd_command = ''FS'', cmd_raw = ''^FS'',
            cmd_position = \<lparr>line = 1, column = 1, offset = 0\<rparr>,
            cmd_parameters = ParamArray [''1'']\<rparr>)),
        ?q\<lparr>current := 3,
            warnings := [\<lparr>warn_message = ''Unsupported command: FS'',
                          warn_position = \<lparr>line = 1, column = 2, offset = 0\<rparr>,
                          warn_suggestion = None\<rparr>]\<rparr>)"
    using stub_codes_bypass_generic_fallback [of ?q ?st ?fs] q1 q2 c n r
    by (simp del: add_2_eq_Suc' add_2_eq_Suc)
  ultimately show ?thesis using p1 p2 n by simp
qed

text \<open>
  C7 as stated fails: for \<open>^FR\<close> the document holds the empty object and no warning, where
  the claim has a generic node and an \<open>unsupported command\<close> warning. This is so for every
  bound \<open>maxArguments\<close> of the engine; the counterexample takes 65535.
\<close>

lemma field_reverse_document:
  "map_option commands (parse_document maxArguments ''^FR'') = Some [EmptyObject]
   \<and> map_option (md_warnings \<circ> metadata) (parse_document maxArguments ''^FR'') = Some []"
  by code_simp

theorem field_reverse_not_generic_counterexample:
  "map_option commands (parse_document 65535 ''^FR'') = Some [EmptyObject]
   \<and> map_option (md_warnings \<circ> metadata) (parse_document 65535 ''^FR'') = Some []
   \<and> node_type EmptyObject = None"
proof -
  have "node_type EmptyObject = None" by (simp add: node_type_def)
  with field_reverse_document [of 65535] show ?thesis by blast
qed

text \<open>
  C8. Two sequential \<open>parse(s)\<close> calls on the same parser object return the same document:
  the second call, started from the state that the first one left behind, returns what the
  first one returned. More generally the result and the final state of \<open>parse(s)\<close> do not
  depend on the state \<open>p\<close> of the object before the call, because the token list, the
  cursor, the error list and the warning list are all assigned before they are read. This
  holds on every engine, also where \<open>parse\<close> throws: both calls then throw the same.
\<close>

theorem parse_deterministic_no_leakage:
  "fst (parse maxArguments s (snd (parse maxArguments s p))) = fst (parse maxArguments s p)
   \<and> parse maxArguments s p = parse maxArguments s q"
proof -
  have reset: "p\<lparr>tokens := a, errors := b, current := c, warnings := d\<rparr>
      = q\<lparr>tokens := a, errors := b, current := c, warnings := d\<rparr>"
    for p q :: ZplParser and a b c d
    by (cases p, cases q) simp
  have indep: "parse maxArguments s p = parse maxArguments s q" for p q
    unfolding parse_def Let_def by (subst reset [where p = p and q = q]) (rule refl)
  have "fst (parse maxArguments s (snd (parse maxArguments s p))) = fst (parse maxArguments s p)"
    by (subst indep [of "snd (parse maxArguments s p)" p]) (rule refl)
  with indep [of p q] show ?thesis by simp
qed


text \<open>
  C9. In the token stream that \<open>tokenize\<close> returns for any source text, the offsets ascend:
  each token's offset is at least the offset of the token before it (and so of every
  earlier token). The stream is not empty, its last token is the end-of-stream token, and
  no other token of the stream is an end-of-stream token.
\<close>

theorem token_offsets_ascend_one_EOF_last:
  "sorted (map tok_offset (fst (tokenize s)))
   \<and> (\<forall>i. Suc i < length (fst (tokenize s)) \<longrightarrow>
          tok_offset (fst (tokenize s) ! i) \<le> tok_offset (fst (tokenize s) ! Suc i))
   \<and> fst (tokenize s) \<noteq> []
   \<and> tok_type (last (fst (tokenize s))) = EOF
   \<and> length (filter (\<lambda>t. tok_type t = EOF) (fst (tokenize s))) = 1"
proof -
  let ?t = "tokenize_loop s tokenize_init"
  let ?eof = "\<lparr>tok_type = EOF, tok_value = ''EOF'', tok_position = getCurrentPosition ?t,
               tok_raw = ''''\<rparr>"
  have toks: "fst (tokenize s) = ttokens ?t @ [?eof]"
    by (simp add: tokenize_def Let_def)
  have ok: "stream_ok (position ?t) (ttokens ?t)"
    using scanned_tokenize [of s] by (simp add: scanned_def)
  have off: "tok_offset ?eof = position ?t"
    by (simp add: tok_offset_def getCurrentPosition_def)
  have sorted: "sorted (map tok_offset (fst (tokenize s)))"
    using ok off unfolding toks by (auto simp: stream_ok_def sorted_append)
  have adjacent: "tok_offset (fst (tokenize s) ! i) \<le> tok_offset (fst (tokenize s) ! Suc i)"
    if "Suc i < length (fst (tokenize s))" for i
  proof -
    have "map tok_offset (fst (tokenize s)) ! i \<le> map tok_offset (fst (tokenize s)) ! Suc i"
      using sorted that by (intro sorted_nth_mono) simp_all
    with that show ?thesis by simp
  qed
  have "filter (\<lambda>t. tok_type t = EOF) (ttokens ?t) = []"
    using ok by (auto simp: stream_ok_def filter_empty_conv)
  then have one: "length (filter (\<lambda>t. tok_type t = EOF) (fst (tokenize s))) = 1"
    unfolding toks by simp
  show ?thesis
    using sorted adjacent one by (simp add: toks)
qed

text \<open>
  The theorem at the source \<open>/\<close>, a lone slash: the comment token starts at offset 0 and
  the end-of-stream token, the second and last token, lies at offset 2.
\<close>

theorem token_offsets_ascend_one_EOF_last_witness:
  "Suc 0 < length (fst (tokenize ''/''))
   \<and> tok_offset (fst (tokenize ''/'') ! 0) \<le> tok_offset (fst (tokenize ''/'') ! Suc 0)
   \<and> map tok_offset (fst (tokenize ''/'')) = [0, 2]
   \<and> map tok_type (fst (tokenize ''/'')) = [COMMENT, EOF]"
proof -
  have h: "Suc 0 < length (fst (tokenize ''/''))" by code_simp
  have "tok_offset (fst (tokenize ''/'') ! 0) \<le> tok_offset (fst (tokenize ''/'') ! Suc 0)"
    using token_offsets_ascend_one_EOF_last [of "''/''"] h by blast
  moreover have "map tok_offset (fst (tokenize ''/'')) = [0, 2]" by code_simp
  moreover have "map tok_type (fst (tokenize ''/'')) = [COMMENT, EOF]" by code_simp
  ultimately show ?thesis using h by simp
qed


text \<open>
  C10. In the token stream that \<open>tokenize\<close> returns for any source text, every
  command-marker token is directly followed by a command-code token. A \<open>^\<close> that no
  command-code character follows pushes no token: \<open>tokenizeCommand\<close> only moves one
  character on and records the lexical error \<open>Empty command after ^\<close>. Consequently, on a
  stream of the tokenizer, whatever the cursor, \<open>consume\<close> finds the command code after a
  successful \<open>match(COMMAND_START)\<close>, and \<open>parseCommand\<close> never throws the
  \<open>ParseError\<close> of \<open>Expected command code after ^\<close>.
\<close>

theorem marker_is_followed_by_code:
  "marker_followed (fst (tokenize s))
   \<and> (\<forall>i. i < length (fst (tokenize s)) \<and> tok_type (fst (tokenize s) ! i) = COMMAND_START
          \<longrightarrow> Suc i < length (fst (tokenize s))
              \<and> tok_type (fst (tokenize s) ! Suc i) = COMMAND_CODE)
   \<and> (\<forall>t. \<not> (position t + 1 < length s \<and> isCommandChar (s ! (position t + 1)))
          \<longrightarrow> ttokens (tokenizeCommand s t) = ttokens t
              \<and> position (tokenizeCommand s t) = position t + 1
              \<and> terrors (tokenizeCommand s t) =
                  terrors t @
                    [\<lparr>err_message = ''Empty command after ^'',
                      err_position =
                        \<lparr>line = tline t, column = tcolumn t + 1, offset = position t + 1\<rparr>,
                      err_severity = ''ERROR'', err_code = ''TOKENIZER_ERROR''\<rparr>])
   \<and> (\<forall>p p1. tokens p = fst (tokenize s) \<and> matchP [COMMAND_START] p = (Ok True, p1)
          \<longrightarrow> (\<exists>ct. consume COMMAND_CODE ''Expected command code after ^'' p1 =
                       (Ok (Some ct), p1\<lparr>current := current p1 + 1\<rparr>)
                    \<and> tok_type ct = COMMAND_CODE))
   \<and> (\<forall>p e p'. tokens p = fst (tokenize s) \<longrightarrow> parseCommand p \<noteq> (Throw (Thrown e), p'))"
proof -
  have mf: "marker_followed (fst (tokenize s))" by (rule tokenize_marker_followed)
  have nth: "\<forall>i. i < length (fst (tokenize s)) \<and> tok_type (fst (tokenize s) ! i) = COMMAND_START
          \<longrightarrow> Suc i < length (fst (tokenize s))
              \<and> tok_type (fst (tokenize s) ! Suc i) = COMMAND_CODE"
    using mf by (auto dest: marker_followed_nth)
  have bare: "\<forall>t. \<not> (position t + 1 < length s \<and> isCommandChar (s ! (position t + 1)))
          \<longrightarrow> ttokens (tokenizeCommand s t) = ttokens t
              \<and> position (tokenizeCommand s t) = position t + 1
              \<and> terrors (tokenizeCommand s t) =
                  terrors t @
                    [\<lparr>err_message = ''Empty command after ^'',
                      err_position =
                        \<lparr>line = tline t, column = tcolumn t + 1, offset = position t + 1\<rparr>,
                      err_severity = ''ERROR'', err_code = ''TOKENIZER_ERROR''\<rparr>]"
  proof (intro allI impI)
    fix t :: ZplTokenizer
    assume a: "\<not> (position t + 1 < length s \<and> isCommandChar (s ! (position t + 1)))"
    show "ttokens (tokenizeCommand s t) = ttokens t
              \<and> position (tokenizeCommand s t) = position t + 1
              \<and> terrors (tokenizeCommand s t) =
                  terrors t @
                    [\<lparr>err_message = ''Empty command after ^'',
                      err_position =
                        \<lparr>line = tline t, column = tcolumn t + 1, offset = position t + 1\<rparr>,
                      err_severity = ''ERROR'', err_code = ''TOKENIZER_ERROR''\<rparr>]"
      by (simp add: tokenizeCommand_empty [OF a] advanceT_def)
  qed
  have cons: "\<forall>p p1. tokens p = fst (tokenize s) \<and> matchP [COMMAND_START] p = (Ok True, p1)
          \<longrightarrow> (\<exists>ct. consume COMMAND_CODE ''Expected command code after ^'' p1 =
                       (Ok (Some ct), p1\<lparr>current := current p1 + 1\<rparr>)
                    \<and> tok_type ct = COMMAND_CODE)"
  proof (intro allI impI)
    fix p p1
    assume a: "tokens p = fst (tokenize s) \<and> matchP [COMMAND_START] p = (Ok True, p1)"
    then obtain st where st: "token_at p (current p) = Some st" "tok_type st = COMMAND_START"
      and p1: "p1 = p\<lparr>current := current p + 1\<rparr>"
      by (auto simp: bindP_def check_eq advance_eq returnP_def split: option.splits if_splits)
    have i: "current p < length (tokens p)" "tokens p ! current p = st"
      using st by (auto simp: token_at_def split: if_splits)
    have "marker_followed (tokens p)" using a mf by simp
    then have "Suc (current p) < length (tokens p)
          \<and> tok_type (tokens p ! Suc (current p)) = COMMAND_CODE"
      using i st by (intro marker_followed_nth) simp_all
    then have "consume COMMAND_CODE ''Expected command code after ^'' p1 =
                 (Ok (Some (tokens p ! Suc (current p))), p1\<lparr>current := current p1 + 1\<rparr>)
               \<and> tok_type (tokens p ! Suc (current p)) = COMMAND_CODE"
      by (simp add: p1 consume_def bindP_def check_eq advance_eq token_at_def)
    then show "\<exists>ct. consume COMMAND_CODE ''Expected command code after ^'' p1 =
                         (Ok (Some ct), p1\<lparr>current := current p1 + 1\<rparr>)
                      \<and> tok_type ct = COMMAND_CODE"
      by blast
  qed
  have never: "\<forall>p e p'. tokens p = fst (tokenize s) \<longrightarrow> parseCommand p \<noteq> (Throw (Thrown e), p')"
  proof (intro allI impI)
    fix p :: ZplParser and e p'
    assume "tokens p = fst (tokenize s)"
    then have "marker_followed (tokens p)" using mf by simp
    then show "parseCommand p \<noteq> (Throw (Thrown e), p')" by (rule parseCommand_not_thrown)
  qed
  show ?thesis
    by (rule conjI [OF mf conjI [OF nth conjI [OF bare conjI [OF cons never]]]])
qed

text \<open>
  The theorem at the source \<open>^ ^A\<close>: the first marker is bare and leaves one error; the
  second one and its code are the first two tokens, and the parser reads them.
\<close>

theorem marker_is_followed_by_code_witness:
  "0 < length (fst (tokenize ''^ ^A''))
   \<and> tok_type (fst (tokenize ''^ ^A'') ! 0) = COMMAND_START
   \<and> tok_type (fst (tokenize ''^ ^A'') ! Suc 0) = COMMAND_CODE
   \<and> \<not> (position tokenize_init + 1 < length ''^ ^A''
         \<and> isCommandChar (''^ ^A'' ! (position tokenize_init + 1)))
   \<and> ttokens (tokenizeCommand ''^ ^A'' tokenize_init) = []
   \<and> map err_message (terrors (tokenizeCommand ''^ ^A'' tokenize_init)) =
       [''Empty command after ^'']
   \<and> matchP [COMMAND_START] (parser_at_start ''^ ^A'') =
       (Ok True, (parser_at_start ''^ ^A'')\<lparr>current := 1\<rparr>)
   \<and> map_option (map_option tok_value)
       (case fst (consume COMMAND_CODE ''Expected command code after ^''
                    ((parser_at_start ''^ ^A'')\<lparr>current := 1\<rparr>)) of
          Ok ct \<Rightarrow> Some ct | Throw e \<Rightarrow> None) = Some (Some ''A'')
   \<and> tokens (parser_at_start ''^ ^A'') = fst (tokenize ''^ ^A'')
   \<and> fst (parseCommand (parser_at_start ''^ ^A'')) =
       Ok (Some (FontSelectionCommand
         \<lparr>cmd_type = ''FONT_SELECTION'', cmd_command = ''A'', cmd_raw = ''^A'',
           cmd_position = \<lparr>line = 1, column = 3, offset = 2\<rparr>,
           cmd_parameters = ParamArray []\<rparr> ''0'' ''N'' (Finite 10) None))"
proof -
  let ?s = "''^ ^A''"
  let ?p = "parser_at_start ?s"
  note T = marker_is_followed_by_code [of ?s]
  have h1: "0 < length (fst (tokenize ?s)) \<and> tok_type (fst (tokenize ?s) ! 0) = COMMAND_START"
    by code_simp
  have c1: "tok_type (fst (tokenize ?s) ! Suc 0) = COMMAND_CODE"
    using T h1 by blast
  have h2: "\<not> (position tokenize_init + 1 < length ?s
         \<and> isCommandChar (?s ! (position tokenize_init + 1)))"
    by code_simp
  have c2: "ttokens (tokenizeCommand ?s tokenize_init) = ttokens tokenize_init
      \<and> terrors (tokenizeCommand ?s tokenize_init) =
          terrors tokenize_init @
            [\<lparr>err_message = ''Empty command after ^'',
              err_position = \<lparr>line = tline tokenize_init, column = tcolumn tokenize_init + 1,
                               offset = position tokenize_init + 1\<rparr>,
              err_severity = ''ERROR'', err_code = ''TOKENIZER_ERROR''\<rparr>]"
    using T h2 by blast
  have h3: "tokens ?p = fst (tokenize ?s)" by (simp add: parser_at_start_def)
  have h4: "matchP [COMMAND_START] ?p = (Ok True, ?p\<lparr>current := 1\<rparr>)" by code_simp
  obtain ct where ct: "consume COMMAND_CODE ''Expected command code after ^'' (?p\<lparr>current := 1\<rparr>) =
       (Ok (Some ct), ?p\<lparr>current := 1\<rparr>\<lparr>current := current (?p\<lparr>current := 1\<rparr>) + 1\<rparr>)"
    using T h3 h4 by blast
  have v: "map_option (map_option tok_value)
       (case fst (consume COMMAND_CODE ''Expected command code after ^'' (?p\<lparr>current := 1\<rparr>)) of
          Ok ct \<Rightarrow> Some ct | Throw e \<Rightarrow> None) = Some (Some ''A'')"
    by code_simp
  have c5: "fst (parseCommand ?p) =
       Ok (Some (FontSelectionCommand
         \<lparr>cmd_type = ''FONT_SELECTION'', cmd_command = ''A'', cmd_raw = ''^A'',
           cmd_position = \<lparr>line = 1, column = 3, offset = 2\<rparr>,
           cmd_parameters = ParamArray []\<rparr> ''0'' ''N'' (Finite 10) None))"
    by code_simp
  show ?thesis
    using h1 c1 h2 c2 h3 h4 v c5 by (simp add: tokenize_init_def)
qed

end
